theory Spec2Isabelle
  imports Main "HOL-Library.Word"
begin

section \<open>The voice transcription service (voice\_server.py)\<close>

text \<open>
  The service is one coroutine per connection, \<^verbatim>\<open>transcribe_handler\<close>, and a
  \<^verbatim>\<open>main\<close> coroutine that registers a SIGTERM handler and serves connections.
  The handler is embedded as a function from the state of the transport to the
  exception that leaves it (if any), the state of the transport afterwards and the
  list of the effects it had, in the order it had them. The two library calls whose result
  is decided outside the program, \<^verbatim>\<open>recognize_google\<close> (line 17) and
  \<^verbatim>\<open>json.dumps\<close> (line 19), are parameters of the embedding; the encoder of the
  standard library is embedded too, for what is claimed of the messages it makes.
\<close>

subsection \<open>Data\<close>

text \<open>
  A WebSocket message is a binary frame (Python \<^verbatim>\<open>bytes\<close>) or a text frame
  (Python \<^verbatim>\<open>str\<close>); the iterator of line 13 yields either.
\<close>

text \<open>
  A Python \<^verbatim>\<open>str\<close> is a list of code points. The literals of the program are ASCII;
  \<open>ascii\<close> gives the \<^verbatim>\<open>str\<close> of one.
\<close>

type_synonym str = "nat list"

definition ascii :: "string \<Rightarrow> str" where
  "ascii s = map of_char s"

datatype frame = Binary "8 word list" | Text str

text \<open>
  The exception classes the program meets, and \<open>OtherError\<close> for an instance of any class
  outside them. \<open>ConnectionClosed\<close> stands for \<^verbatim>\<open>websockets.exceptions.ConnectionClosed\<close>
  and its subclasses, \<open>RequestError\<close> carries the message that line 23 prints.
\<close>

datatype exn =
    UnknownValueError
  | RequestError str
  | ConnectionClosed
  | InvalidStateError
  | OtherError string

text \<open>The argument of \<^verbatim>\<open>json.dumps\<close>: a string, or a dict with its keys in order.\<close>

datatype json = JString str | JObject "(str \<times> json) list"

text \<open>
  What a session does, as seen from outside: it takes a message from the connection,
  prints a line, or calls \<^verbatim>\<open>websocket.send\<close>, where the call either writes the
  message to the peer (\<open>Sent\<close>) or raises without writing it (\<open>SendFailed\<close>).
\<close>

datatype event = Recv frame | Print str | Sent frame | SendFailed frame

text \<open>
  The transport of one connection: the messages the iterator will still yield, what the
  iterator does once they are exhausted (\<open>None\<close>: the iteration ends, as on a normal
  closure; \<open>Some e\<close>: it raises \<open>e\<close>), and the number of writes the peer still
  accepts before it is gone (\<open>None\<close>: it accepts every write).
\<close>

record websocket =
  inbox :: "frame list"
  closure :: "exn option"
  writes_left :: "nat option"

text \<open>
  \<^verbatim>\<open>sr.AudioData(frame_data, sample_rate, sample_width)\<close>. The constructor checks that
  the rate is positive and the width between 1 and 4, which holds for the constants of
  line 16, and stores its arguments.
\<close>

record audio_data =
  frame_data :: frame
  sample_rate :: nat
  sample_width :: nat

definition AudioData :: "frame \<Rightarrow> nat \<Rightarrow> nat \<Rightarrow> audio_data" where
  "AudioData chunk rate width =
     \<lparr>frame_data = chunk, sample_rate = rate, sample_width = width\<rparr>"

text \<open>
  \<^verbatim>\<open>recognizer.recognize_google\<close> is a call to a service outside the program: it returns
  the text (\<open>Inr\<close>) or raises (\<open>Inl\<close>). It is a parameter of the handler.
\<close>

type_synonym recognizer = "audio_data \<Rightarrow> exn + str"

subsection \<open>The session handler\<close>

text \<open>One step of the iterator of line 13.\<close>

definition anext :: "websocket \<Rightarrow> (exn + frame option) \<times> websocket" where
  "anext ws =
     (case inbox ws of
        audio_chunk # rest \<Rightarrow> (Inr (Some audio_chunk), ws\<lparr>inbox := rest\<rparr>)
      | [] \<Rightarrow> (case closure ws of
                 None \<Rightarrow> (Inr None, ws)
               | Some e \<Rightarrow> (Inl e, ws)))"

text \<open>
  \<^verbatim>\<open>await websocket.send(message)\<close>: raises \<open>ConnectionClosed\<close> when the peer is gone,
  and writes the message otherwise. A \<^verbatim>\<open>str\<close> argument goes out as a text frame.
\<close>

definition send :: "websocket \<Rightarrow> str \<Rightarrow> exn option \<times> websocket \<times> event list" where
  "send ws message =
     (case writes_left ws of
        None \<Rightarrow> (None, ws, [Sent (Text message)])
      | Some 0 \<Rightarrow> (Some ConnectionClosed, ws, [SendFailed (Text message)])
      | Some (Suc n) \<Rightarrow> (None, ws\<lparr>writes_left := Some n\<rparr>, [Sent (Text message)]))"

text \<open>The dict literal of line 19.\<close>

definition transcript_object :: "str \<Rightarrow> json" where
  "transcript_object text = JObject [(ascii ''transcript'', JString text)]"

text \<open>
  Lines 16 to 19, the body of the inner \<^verbatim>\<open>try\<close>. The first component is the exception
  that leaves the block, if any.
\<close>

definition try_block ::
  "recognizer \<Rightarrow> (json \<Rightarrow> str) \<Rightarrow> frame \<Rightarrow> websocket \<Rightarrow> exn option \<times> websocket \<times> event list" where
  "try_block recognize_google dumps audio_chunk ws =
     (case recognize_google (AudioData audio_chunk 16000 2) of
        Inl e \<Rightarrow> (Some e, ws, [])
      | Inr text \<Rightarrow>
          (case send ws (dumps (transcript_object text)) of
             (r, ws', evs) \<Rightarrow> (r, ws', Print (ascii ''Recognized: '' @ text) # evs)))"

text \<open>
  Lines 14 to 23: the inner \<^verbatim>\<open>try\<close> with its two \<^verbatim>\<open>except\<close> clauses. Any other
  exception leaves the statement.
\<close>

definition loop_body ::
  "recognizer \<Rightarrow> (json \<Rightarrow> str) \<Rightarrow> frame \<Rightarrow> websocket \<Rightarrow> exn option \<times> websocket \<times> event list" where
  "loop_body recognize_google dumps audio_chunk ws =
     (case try_block recognize_google dumps audio_chunk ws of
        (Some UnknownValueError, ws', evs) \<Rightarrow>
          (None, ws', evs @ [Print (ascii ''Could not understand audio.'')])
      | (Some (RequestError e), ws', evs) \<Rightarrow>
          (None, ws', evs @ [Print (ascii ''Google API Error: '' @ e)])
      | (r, ws', evs) \<Rightarrow> (r, ws', evs))"

text \<open>
  Lines 13 to 23, the \<^verbatim>\<open>async for\<close> loop. The first component is the exception that
  leaves the loop, if any. The loop ends: every turn takes one message off the inbox.
\<close>

function for_loop ::
  "recognizer \<Rightarrow> (json \<Rightarrow> str) \<Rightarrow> websocket \<Rightarrow> exn option \<times> websocket \<times> event list" where
  "for_loop recognize_google dumps ws =
     (case anext ws of
        (Inl e, ws') \<Rightarrow> (Some e, ws', [])
      | (Inr None, ws') \<Rightarrow> (None, ws', [])
      | (Inr (Some audio_chunk), ws') \<Rightarrow>
          (case loop_body recognize_google dumps audio_chunk ws' of
             (Some e, ws'', evs) \<Rightarrow> (Some e, ws'', Recv audio_chunk # evs)
           | (None, ws'', evs) \<Rightarrow>
               (case for_loop recognize_google dumps ws'' of
                  (r, ws''', evs') \<Rightarrow> (r, ws''', Recv audio_chunk # evs @ evs'))))"
  by pat_completeness auto
termination
  by (relation "measure (\<lambda>(recognize_google, dumps, ws). length (inbox ws))")
     (auto simp: anext_def loop_body_def try_block_def send_def
           split: list.splits option.splits sum.splits exn.splits nat.splits prod.splits)

declare for_loop.simps [simp del]

text \<open>
  Lines 10 to 25. The first component of the result is the exception that escapes the
  handler; \<open>None\<close> is a normal return.
\<close>

definition transcribe_handler ::
  "recognizer \<Rightarrow> (json \<Rightarrow> str) \<Rightarrow> websocket \<Rightarrow> exn option \<times> websocket \<times> event list" where
  "transcribe_handler recognize_google dumps websocket =
     (case for_loop recognize_google dumps websocket of
        (Some ConnectionClosed, ws', evs) \<Rightarrow>
          (None, ws',
           Print (ascii ''Connection established for voice transcription.'') # evs
             @ [Print (ascii ''Connection for voice transcription closed.'')])
      | (r, ws', evs) \<Rightarrow>
          (r, ws', Print (ascii ''Connection established for voice transcription.'') # evs))"

subsection \<open>Reading a trace\<close>

text \<open>The chunks a session took from its connection, in order.\<close>

fun received :: "event list \<Rightarrow> frame list" where
  "received [] = []"
| "received (Recv c # evs) = c # received evs"
| "received (_ # evs) = received evs"

text \<open>
  The arguments of the calls of \<^verbatim>\<open>websocket.send\<close>, in order, whether or not the call
  raised.
\<close>

fun send_calls :: "event list \<Rightarrow> frame list" where
  "send_calls [] = []"
| "send_calls (Sent m # evs) = m # send_calls evs"
| "send_calls (SendFailed m # evs) = m # send_calls evs"
| "send_calls (_ # evs) = send_calls evs"

text \<open>The messages written to the peer, in order.\<close>

fun delivered :: "event list \<Rightarrow> frame list" where
  "delivered [] = []"
| "delivered (Sent m # evs) = m # delivered evs"
| "delivered (_ # evs) = delivered evs"

text \<open>The events of one turn of the loop: those up to the next \<open>Recv\<close>.\<close>

fun turn_events :: "event list \<Rightarrow> event list" where
  "turn_events [] = []"
| "turn_events (Recv c # evs) = []"
| "turn_events (e # evs) = e # turn_events evs"

text \<open>A trace cut into the turns of the loop: each chunk with the events of its turn.\<close>

fun turns :: "event list \<Rightarrow> (frame \<times> event list) list" where
  "turns [] = []"
| "turns (Recv c # evs) = (c, turn_events evs) # turns evs"
| "turns (_ # evs) = turns evs"

text \<open>Each chunk received, with the arguments of the send calls of its turn.\<close>

definition answers :: "event list \<Rightarrow> (frame \<times> frame list) list" where
  "answers evs = map (\<lambda>(c, t). (c, send_calls t)) (turns evs)"

text \<open>
  The transcript message of a chunk: the one message the client is to get for a chunk the
  recognizer succeeds on, and none for a chunk it fails on.
\<close>

definition reply :: "recognizer \<Rightarrow> (json \<Rightarrow> str) \<Rightarrow> frame \<Rightarrow> frame list" where
  "reply recognize_google dumps chunk =
     (case recognize_google (AudioData chunk 16000 2) of
        Inr text \<Rightarrow> [Text (dumps (transcript_object text))]
      | Inl _ \<Rightarrow> [])"

text \<open>A recognition outcome the inner try statement deals with: a text or one of the two failures.\<close>

definition absorbed :: "exn + str \<Rightarrow> bool" where
  "absorbed outcome =
     (case outcome of
        Inr _ \<Rightarrow> True
      | Inl UnknownValueError \<Rightarrow> True
      | Inl (RequestError _) \<Rightarrow> True
      | Inl _ \<Rightarrow> False)"

text \<open>The peer stays connected for at least \<open>n\<close> more writes.\<close>

definition peer_accepts :: "websocket \<Rightarrow> nat \<Rightarrow> bool" where
  "peer_accepts ws n = (case writes_left ws of None \<Rightarrow> True | Some w \<Rightarrow> n \<le> w)"

text \<open>The keys of a JSON object and the value under a key.\<close>

fun keys :: "json \<Rightarrow> str list" where
  "keys (JObject kvs) = map fst kvs"
| "keys (JString _) = []"

fun member_of :: "json \<Rightarrow> str \<Rightarrow> json option" where
  "member_of (JObject kvs) k = map_of kvs k"
| "member_of (JString _) k = None"

subsection \<open>The main coroutine and the termination signal\<close>

text \<open>
  An \<^verbatim>\<open>asyncio.Future\<close> is pending or done with a result; \<^verbatim>\<open>set_result\<close> on a future
  that is done raises \<^verbatim>\<open>InvalidStateError\<close>.
\<close>

datatype 'a future = Pending | Done 'a

definition set_result :: "'a future \<Rightarrow> 'a \<Rightarrow> exn + 'a future" where
  "set_result fut result =
     (case fut of Pending \<Rightarrow> Inr (Done result) | Done _ \<Rightarrow> Inl InvalidStateError)"

text \<open>
  The state of the process while \<^verbatim>\<open>main\<close> is suspended on line 35: the future \<open>stop\<close>
  of line 30, the future that line 35 creates and awaits (another object), whether the
  listener of line 33 is accepting, and the connections accepted so far.
\<close>

record process =
  stop :: "unit future"
  awaited :: "unit future"
  serving :: bool
  sessions :: "websocket list"

definition main_suspended :: process where
  "main_suspended = \<lparr>stop = Pending, awaited = Pending, serving = True, sessions = []\<rparr>"

text \<open>
  SIGTERM arrives: the event loop calls the handler registered on line 31,
  \<^verbatim>\<open>stop.set_result(None)\<close>. An exception raised by a callback is reported to the loop's
  exception handler (the first component) and goes no further.
\<close>

definition on_sigterm :: "process \<Rightarrow> exn option \<times> process" where
  "on_sigterm p =
     (case set_result (stop p) () of
        Inr fut \<Rightarrow> (None, p\<lparr>stop := fut\<rparr>)
      | Inl e \<Rightarrow> (Some e, p))"

text \<open>
  One turn of the event loop for \<^verbatim>\<open>main\<close>: it resumes only if the future it awaits on
  line 35 is done, and then leaves the \<^verbatim>\<open>async with\<close> block, which closes the listener.
\<close>

definition main_turn :: "process \<Rightarrow> process" where
  "main_turn p = (case awaited p of Pending \<Rightarrow> p | Done _ \<Rightarrow> p\<lparr>serving := False\<rparr>)"

text \<open>A client connects: the listener accepts the connection while it is serving.\<close>

definition connect :: "process \<Rightarrow> websocket \<Rightarrow> process" where
  "connect p ws = (if serving p then p\<lparr>sessions := sessions p @ [ws]\<rparr> else p)"

text \<open>What can happen to the process while \<^verbatim>\<open>main\<close> is suspended, and a run of such steps.\<close>

datatype step = Sigterm | Turn | Connect websocket

fun run_process :: "process \<Rightarrow> step list \<Rightarrow> process" where
  "run_process p [] = p"
| "run_process p (Sigterm # steps) = run_process (snd (on_sigterm p)) steps"
| "run_process p (Turn # steps) = run_process (main_turn p) steps"
| "run_process p (Connect ws # steps) = run_process (connect p ws) steps"

subsection \<open>Sessions on one event loop\<close>

text \<open>
  \<^verbatim>\<open>asyncio\<close> runs the coroutines of all the sessions on one thread: a coroutine runs
  until it awaits, and only then is another one resumed.
\<close>

text \<open>
  The time a call of \<^verbatim>\<open>recognize_google\<close> takes on an audio, in ticks of a clock;
  \<open>None\<close> when the call never returns.
\<close>

type_synonym timing = "audio_data \<Rightarrow> nat option"

text \<open>
  The coroutine of a session between two turns: its connection, what it has done so far,
  and whether it has ended.
\<close>

record task =
  conn :: websocket
  log :: "event list"
  ended :: bool

text \<open>A session as the server starts it: line 11 has run.\<close>

definition new_task :: "websocket \<Rightarrow> task" where
  "new_task websocket =
     \<lparr>conn = websocket,
      log = [Print (ascii ''Connection established for voice transcription.'')],
      ended = False\<rparr>"

text \<open>Lines 24 and 25, for the exception that left the loop.\<close>

definition closing :: "exn \<Rightarrow> event list" where
  "closing e =
     (case e of
        ConnectionClosed \<Rightarrow> [Print (ascii ''Connection for voice transcription closed.'')]
      | _ \<Rightarrow> [])"

text \<open>
  One turn of a session: resumed on line 13, it takes the next message and runs lines 16
  to 23 to come back to line 13. Lines 16 to 18 hold no \<^verbatim>\<open>await\<close>: the event loop gets
  control back only after the call of line 17 has returned, and never if it does not
  return (\<open>None\<close>). The result is the time the turn took, the chunk it processed and
  the session after it. The write of line 19 is taken not to suspend.
\<close>

definition task_turn ::
  "recognizer \<Rightarrow> (json \<Rightarrow> str) \<Rightarrow> timing \<Rightarrow> task \<Rightarrow> (nat \<times> frame option \<times> task) option" where
  "task_turn recognize_google dumps timing t =
     (if ended t then Some (0, None, t)
      else
        (case anext (conn t) of
           (Inl e, ws') \<Rightarrow> Some (0, None, \<lparr>conn = ws', log = log t @ closing e, ended = True\<rparr>)
         | (Inr None, ws') \<Rightarrow> Some (0, None, \<lparr>conn = ws', log = log t, ended = True\<rparr>)
         | (Inr (Some audio_chunk), ws') \<Rightarrow>
             (case timing (AudioData audio_chunk 16000 2) of
                None \<Rightarrow> None
              | Some dt \<Rightarrow>
                  (case loop_body recognize_google dumps audio_chunk ws' of
                     (None, ws'', evs) \<Rightarrow>
                       Some (dt, Some audio_chunk,
                             \<lparr>conn = ws'', log = log t @ Recv audio_chunk # evs, ended = False\<rparr>)
                   | (Some e, ws'', evs) \<Rightarrow>
                       Some (dt, Some audio_chunk,
                             \<lparr>conn = ws'', log = log t @ Recv audio_chunk # evs @ closing e,
                              ended = True\<rparr>)))))"

text \<open>
  The event loop: its clock, the sessions it runs, and for each chunk processed the
  session, the chunk and the time at which its turn was over.
\<close>

record event_loop =
  clock :: nat
  tasks :: "task list"
  processed :: "(nat \<times> frame \<times> nat) list"

text \<open>
  The loop resumes the sessions one at a time, in the order their messages arrive (the
  schedule), each for one turn. \<open>None\<close>: a turn never gave control back.
\<close>

fun run_loop ::
  "recognizer \<Rightarrow> (json \<Rightarrow> str) \<Rightarrow> timing \<Rightarrow> event_loop \<Rightarrow> nat list \<Rightarrow> event_loop option" where
  "run_loop recognize_google dumps timing l [] = Some l"
| "run_loop recognize_google dumps timing l (i # schedule) =
     (if i < length (tasks l) then
        (case task_turn recognize_google dumps timing (tasks l ! i) of
           None \<Rightarrow> None
         | Some (dt, chunk, t') \<Rightarrow>
             run_loop recognize_google dumps timing
               \<lparr>clock = clock l + dt,
                tasks = (tasks l)[i := t'],
                processed = processed l @
                  (case chunk of None \<Rightarrow> [] | Some c \<Rightarrow> [(i, c, clock l + dt)])\<rparr>
               schedule)
      else run_loop recognize_google dumps timing l schedule)"

text \<open>A session run alone, for a number of turns.\<close>

fun turns_alone ::
  "recognizer \<Rightarrow> (json \<Rightarrow> str) \<Rightarrow> timing \<Rightarrow> nat \<Rightarrow> task \<Rightarrow> task option" where
  "turns_alone recognize_google dumps timing 0 t = Some t"
| "turns_alone recognize_google dumps timing (Suc n) t =
     (case task_turn recognize_google dumps timing t of
        None \<Rightarrow> None
      | Some (dt, chunk, t') \<Rightarrow> turns_alone recognize_google dumps timing n t')"

subsection \<open>The output of the JSON encoder\<close>

text \<open>
  \<^verbatim>\<open>json.dumps\<close> with its default arguments, on strings and dicts: items joined by a
  comma and a space, a colon and a space after each key, and in a string every character
  outside the printable ASCII range escaped, a code point above \<open>0xFFFF\<close> as the two
  escapes of its surrogate pair. The digits of an escape are in lower case.
\<close>

definition hex_digit :: "nat \<Rightarrow> nat" where
  "hex_digit n = (if n < 10 then 48 + n else 87 + n)"

definition u_escape :: "nat \<Rightarrow> str" where
  "u_escape n =
     [92, 117, hex_digit (n div 4096 mod 16), hex_digit (n div 256 mod 16),
      hex_digit (n div 16 mod 16), hex_digit (n mod 16)]"

definition escape_char :: "nat \<Rightarrow> str" where
  "escape_char c =
     (if c = 34 then [92, 34]
      else if c = 92 then [92, 92]
      else if c = 10 then [92, 110]
      else if c = 13 then [92, 114]
      else if c = 9 then [92, 116]
      else if c = 8 then [92, 98]
      else if c = 12 then [92, 102]
      else if 32 \<le> c \<and> c \<le> 126 then [c]
      else if c < 65536 then u_escape c
      else u_escape (55296 + (c - 65536) div 1024 mod 1024)
         @ u_escape (56320 + (c - 65536) mod 1024))"

definition quote :: "str \<Rightarrow> str" where
  "quote s = [34] @ concat (map escape_char s) @ [34]"

fun join :: "str \<Rightarrow> str list \<Rightarrow> str" where
  "join sep [] = []"
| "join sep [x] = x"
| "join sep (x # y # ys) = x @ sep @ join sep (y # ys)"

fun json_dumps :: "json \<Rightarrow> str" where
  "json_dumps (JString s) = quote s"
| "json_dumps (JObject kvs) =
     [123] @ join [44, 32] (map (\<lambda>kv. quote (fst kv) @ [58, 32] @ json_dumps (snd kv)) kvs)
       @ [125]"

subsection \<open>The decoder of the client\<close>

text \<open>The value of a hexadecimal digit, in either case.\<close>

definition hex_value :: "nat \<Rightarrow> nat option" where
  "hex_value c =
     (if 48 \<le> c \<and> c \<le> 57 then Some (c - 48)
      else if 97 \<le> c \<and> c \<le> 102 then Some (c - 87)
      else if 65 \<le> c \<and> c \<le> 70 then Some (c - 55)
      else None)"

text \<open>The four digits after a backslash and a u.\<close>

definition hex4 :: "nat \<Rightarrow> nat \<Rightarrow> nat \<Rightarrow> nat \<Rightarrow> nat option" where
  "hex4 a b c d =
     (case (hex_value a, hex_value b, hex_value c, hex_value d) of
        (Some x, Some y, Some z, Some w) \<Rightarrow> Some (((x * 16 + y) * 16 + z) * 16 + w)
      | _ \<Rightarrow> None)"

text \<open>The character a backslash stands for with the letter after it.\<close>

definition unescape :: "nat \<Rightarrow> nat option" where
  "unescape e =
     (if e = 34 then Some 34
      else if e = 92 then Some 92
      else if e = 47 then Some 47
      else if e = 98 then Some 8
      else if e = 102 then Some 12
      else if e = 110 then Some 10
      else if e = 114 then Some 13
      else if e = 116 then Some 9
      else None)"

definition prepend :: "nat \<Rightarrow> (str \<times> str) option \<Rightarrow> (str \<times> str) option" where
  "prepend c res = (case res of None \<Rightarrow> None | Some (s, rest) \<Rightarrow> Some (c # s, rest))"

text \<open>
  The characters of a string literal after its opening quote: the text it stands for and
  the input after its closing quote.
\<close>

fun scan_string :: "str \<Rightarrow> (str \<times> str) option" where
  "scan_string [] = None"
| "scan_string (c # cs) =
     (if c = 34 then Some ([], cs)
      else if c = 92 then
        (case cs of
           [] \<Rightarrow> None
         | e # cs1 \<Rightarrow>
             if e = 117 then
               (case cs1 of
                  a # b # c' # d # cs2 \<Rightarrow>
                    (case hex4 a b c' d of
                       None \<Rightarrow> None
                     | Some uni \<Rightarrow>
                         if 55296 \<le> uni \<and> uni \<le> 56319 then
                           (case cs2 of
                              b1 # u1 # a2 # b2 # c2 # d2 # cs3 \<Rightarrow>
                                if b1 = 92 \<and> u1 = 117 then
                                  (case hex4 a2 b2 c2 d2 of
                                     None \<Rightarrow> None
                                   | Some uni2 \<Rightarrow>
                                       if 56320 \<le> uni2 \<and> uni2 \<le> 57343
                                       then prepend
                                         (65536 + ((uni - 55296) * 1024 + (uni2 - 56320)))
                                         (scan_string cs3)
                                       else prepend uni (scan_string cs2))
                                else prepend uni (scan_string cs2)
                            | _ \<Rightarrow> prepend uni (scan_string cs2))
                         else prepend uni (scan_string cs2))
                | _ \<Rightarrow> None)
             else (case unescape e of
                     None \<Rightarrow> None
                   | Some ch \<Rightarrow> prepend ch (scan_string cs1)))
      else if c < 32 then None
      else prepend c (scan_string cs))"

text \<open>Leading white space dropped.\<close>

definition skip_ws :: "str \<Rightarrow> str" where
  "skip_ws s = dropWhile (\<lambda>c. c = 32 \<or> c = 9 \<or> c = 10 \<or> c = 13) s"

text \<open>A string literal at the head of the input.\<close>

definition parse_string :: "str \<Rightarrow> (str \<times> str) option" where
  "parse_string s = (case s of [] \<Rightarrow> None | c # cs \<Rightarrow> if c = 34 then scan_string cs else None)"

text \<open>A member of an object, a key and a colon and a string: the pair and the input left.\<close>

definition parse_member :: "str \<Rightarrow> ((str \<times> json) \<times> str) option" where
  "parse_member s =
     (case parse_string s of
        None \<Rightarrow> None
      | Some (k, r) \<Rightarrow>
          (case skip_ws r of
             [] \<Rightarrow> None
           | c # r1 \<Rightarrow>
               if c = 58 then
                 (case parse_string (skip_ws r1) of
                    None \<Rightarrow> None
                  | Some (v, r2) \<Rightarrow> Some ((k, JString v), r2))
               else None))"

text \<open>
  The members of an object up to its closing brace, separated by commas. The first
  argument bounds the number of members read; the length of the input is enough.
\<close>

fun parse_members :: "nat \<Rightarrow> str \<Rightarrow> ((str \<times> json) list \<times> str) option" where
  "parse_members 0 s = None"
| "parse_members (Suc n) s =
     (case parse_member s of
        None \<Rightarrow> None
      | Some (m, r) \<Rightarrow>
          (case skip_ws r of
             [] \<Rightarrow> None
           | c # r1 \<Rightarrow>
               if c = 125 then Some ([m], r1)
               else if c = 44 then
                 (case parse_members n (skip_ws r1) of
                    None \<Rightarrow> None
                  | Some (ms, r2) \<Rightarrow> Some (m # ms, r2))
               else None))"

text \<open>
  The decoder a client applies to a message, \<^verbatim>\<open>json.loads\<close> on the texts that are a
  string or an object of strings; any other text is refused.
\<close>

definition parse_value :: "str \<Rightarrow> (json \<times> str) option" where
  "parse_value s =
     (case s of
        [] \<Rightarrow> None
      | c # cs \<Rightarrow>
          if c = 34 then
            (case scan_string cs of None \<Rightarrow> None | Some (v, r) \<Rightarrow> Some (JString v, r))
          else if c = 123 then
            (case skip_ws cs of
               [] \<Rightarrow> None
             | c1 # r1 \<Rightarrow>
                 if c1 = 125 then Some (JObject [], r1)
                 else (case parse_members (length cs) (skip_ws cs) of
                         None \<Rightarrow> None
                       | Some (ms, r) \<Rightarrow> Some (JObject ms, r)))
          else None)"

definition json_loads :: "str \<Rightarrow> json option" where
  "json_loads s =
     (case parse_value (skip_ws s) of
        None \<Rightarrow> None
      | Some (v, r) \<Rightarrow> if skip_ws r = [] then Some v else None)"

text \<open>A text of Unicode scalar values: code points up to \<open>0x10FFFF\<close>, no surrogates.\<close>

definition scalar :: "nat \<Rightarrow> bool" where
  "scalar c = (c < 55296 \<or> (57344 \<le> c \<and> c < 1114112))"

definition well_formed :: "str \<Rightarrow> bool" where
  "well_formed s = list_all scalar s"

subsection \<open>A recognizer and a connection for the examples\<close>

definition sample_recognizer :: recognizer where
  "sample_recognizer audio =
     (case frame_data audio of
        Binary [] \<Rightarrow> Inl UnknownValueError
      | Binary (b # _) \<Rightarrow>
          (if b = 1 then Inr (ascii ''hello'')
           else if b = 2 then Inr (ascii ''world'')
           else Inl (RequestError (ascii ''quota exceeded'')))
      | Text _ \<Rightarrow> Inl (OtherError ''TypeError''))"

definition open_connection :: "frame list \<Rightarrow> websocket" where
  "open_connection chunks = \<lparr>inbox = chunks, closure = None, writes_left = None\<rparr>"

text \<open>A recognizer that hears a text with an accented letter and an emoji.\<close>

definition unicode_recognizer :: recognizer where
  "unicode_recognizer audio = Inr [99, 97, 102, 233, 32, 128512]"

text \<open>Two sessions open at once, each with one chunk to come.\<close>

definition two_sessions :: event_loop where
  "two_sessions =
     \<lparr>clock = 0,
      tasks = [new_task (open_connection [Binary [1]]), new_task (open_connection [Binary [2]])],
      processed = []\<rparr>"

section \<open>Properties\<close>

subsection \<open>The loop, turn by turn\<close>

lemma received_append: "received (xs @ ys) = received xs @ received ys"
  by (induction xs rule: received.induct) simp_all

lemma send_calls_append: "send_calls (xs @ ys) = send_calls xs @ send_calls ys"
  by (induction xs rule: send_calls.induct) simp_all

lemma delivered_append: "delivered (xs @ ys) = delivered xs @ delivered ys"
  by (induction xs rule: delivered.induct) simp_all

lemma for_loop_Nil: "inbox ws = [] \<Longrightarrow> for_loop rg d ws = (closure ws, ws, [])"
  by (simp add: for_loop.simps anext_def split: option.splits)

lemma for_loop_Cons:
  "inbox ws = c # cs \<Longrightarrow>
   for_loop rg d ws =
     (case loop_body rg d c (ws\<lparr>inbox := cs\<rparr>) of
        (Some e, ws1, evs) \<Rightarrow> (Some e, ws1, Recv c # evs)
      | (None, ws1, evs) \<Rightarrow>
          (case for_loop rg d ws1 of
             (r, ws2, evs') \<Rightarrow> (r, ws2, Recv c # evs @ evs')))"
  by (subst for_loop.simps) (simp add: anext_def)

text \<open>The five ways through one turn of the loop.\<close>

lemma loop_body_cases:
  "loop_body rg d c ws =
    (case rg (AudioData c 16000 2) of
       Inl UnknownValueError \<Rightarrow> (None, ws, [Print (ascii ''Could not understand audio.'')])
     | Inl (RequestError m) \<Rightarrow> (None, ws, [Print (ascii ''Google API Error: '' @ m)])
     | Inl e \<Rightarrow> (Some e, ws, [])
     | Inr t \<Rightarrow>
        (case writes_left ws of
           None \<Rightarrow>
             (None, ws, [Print (ascii ''Recognized: '' @ t), Sent (Text (d (transcript_object t)))])
         | Some 0 \<Rightarrow>
             (Some ConnectionClosed, ws,
              [Print (ascii ''Recognized: '' @ t), SendFailed (Text (d (transcript_object t)))])
         | Some (Suc n) \<Rightarrow>
             (None, ws\<lparr>writes_left := Some n\<rparr>,
              [Print (ascii ''Recognized: '' @ t), Sent (Text (d (transcript_object t)))])))"
  by (simp add: loop_body_def try_block_def send_def
      split: sum.splits exn.splits option.splits nat.splits)

lemmas body_splits = sum.splits exn.splits option.splits nat.splits

lemma loop_body_inbox: "loop_body rg d c ws = (r, ws', evs) \<Longrightarrow> inbox ws' = inbox ws"
  by (auto simp: loop_body_cases split: body_splits)

lemma loop_body_closure: "loop_body rg d c ws = (r, ws', evs) \<Longrightarrow> closure ws' = closure ws"
  by (auto simp: loop_body_cases split: body_splits)

lemma loop_body_received: "loop_body rg d c ws = (r, ws', evs) \<Longrightarrow> received evs = []"
  by (auto simp: loop_body_cases split: body_splits)

lemma loop_body_send_calls:
  "loop_body rg d c ws = (r, ws', evs) \<Longrightarrow> send_calls evs = reply rg d c"
  by (auto simp: loop_body_cases reply_def split: body_splits)

text \<open>
  Induction along the loop: the stream is exhausted, the turn raises, or the turn
  completes and the loop goes on from the state it left.
\<close>

lemma for_loop_induct [consumes 1, case_names Closed Raised Next]:
  assumes run: "for_loop rg d ws = (r, ws', evs)"
    and closed: "\<And>ws. inbox ws = [] \<Longrightarrow> P ws (closure ws) ws []"
    and raised: "\<And>ws c cs e ws1 evs.
          inbox ws = c # cs \<Longrightarrow> loop_body rg d c (ws\<lparr>inbox := cs\<rparr>) = (Some e, ws1, evs) \<Longrightarrow>
          P ws (Some e) ws1 (Recv c # evs)"
    and continue: "\<And>ws c cs ws1 evs r ws2 evs'.
          inbox ws = c # cs \<Longrightarrow> loop_body rg d c (ws\<lparr>inbox := cs\<rparr>) = (None, ws1, evs) \<Longrightarrow>
          for_loop rg d ws1 = (r, ws2, evs') \<Longrightarrow> P ws1 r ws2 evs' \<Longrightarrow>
          P ws r ws2 (Recv c # evs @ evs')"
  shows "P ws r ws' evs"
  using run
proof (induction "length (inbox ws)" arbitrary: ws r ws' evs rule: less_induct)
  case less
  show ?case
  proof (cases "inbox ws")
    case Nil
    with less.prems closed[of ws] show ?thesis by (auto simp: for_loop_Nil)
  next
    case (Cons c cs)
    obtain rb ws1 evb where b: "loop_body rg d c (ws\<lparr>inbox := cs\<rparr>) = (rb, ws1, evb)"
      by (cases "loop_body rg d c (ws\<lparr>inbox := cs\<rparr>)") auto
    show ?thesis
    proof (cases rb)
      case (Some e)
      with less.prems Cons b raised[of ws c cs e ws1 evb] show ?thesis
        by (simp add: for_loop_Cons)
    next
      case None
      obtain r2 ws2 ev2 where l: "for_loop rg d ws1 = (r2, ws2, ev2)"
        by (cases "for_loop rg d ws1") auto
      have "inbox ws1 = cs" using loop_body_inbox[OF b] by simp
      then have "length (inbox ws1) < length (inbox ws)" using Cons by simp
      then have "P ws1 r2 ws2 ev2" using less.hyps l by blast
      with continue[of ws c cs ws1 evb r2 ws2 ev2] Cons b None l
      have "P ws r2 ws2 (Recv c # evb @ ev2)" by simp
      moreover from less.prems Cons b None l
      have "r = r2" "ws' = ws2" "evs = Recv c # evb @ ev2" by (simp_all add: for_loop_Cons)
      ultimately show ?thesis by simp
    qed
  qed
qed

lemma for_loop_send_calls:
  "for_loop rg d ws = (r, ws', evs) \<Longrightarrow>
   send_calls evs = concat (map (reply rg d) (received evs))"
proof (induction ws r ws' evs rule: for_loop_induct)
  case (Closed ws)
  show ?case by simp
next
  case (Raised ws c cs e ws1 evs)
  then show ?case by (simp add: loop_body_received loop_body_send_calls)
next
  case (Next ws c cs ws1 evs r ws2 evs')
  then show ?case
    by (simp add: send_calls_append received_append loop_body_received loop_body_send_calls)
qed

lemma for_loop_received:
  "for_loop rg d ws = (r, ws', evs) \<Longrightarrow> received evs @ inbox ws' = inbox ws"
proof (induction ws r ws' evs rule: for_loop_induct)
  case (Closed ws)
  show ?case by simp
next
  case (Raised ws c cs e ws1 evs)
  then show ?case using loop_body_inbox[OF Raised(2)] by (simp add: loop_body_received)
next
  case (Next ws c cs ws1 evs r ws2 evs')
  then show ?case using loop_body_inbox[OF Next(2)]
    by (simp add: received_append loop_body_received)
qed

lemma turn_events_append:
  "received xs = [] \<Longrightarrow> turn_events (xs @ ys) = xs @ turn_events ys"
  by (induction xs rule: received.induct) simp_all

lemma turns_append: "received xs = [] \<Longrightarrow> turns (xs @ ys) = turns ys"
  by (induction xs rule: received.induct) simp_all

lemma map_fst_turns: "map fst (turns evs) = received evs"
  by (induction evs rule: turns.induct) simp_all

lemma send_calls_turn_events_Print:
  "send_calls (turn_events (evs @ [Print s])) = send_calls (turn_events evs)"
  by (induction evs rule: turn_events.induct) simp_all

lemma answers_snoc_Print: "answers (evs @ [Print s]) = answers evs"
  by (induction evs rule: turns.induct)
     (simp_all add: answers_def send_calls_turn_events_Print)

lemma answers_Print: "answers (Print s # evs) = answers evs"
  by (simp add: answers_def)

lemma for_loop_starts_with_Recv:
  "for_loop rg d ws = (r, ws', evs) \<Longrightarrow> turn_events evs = []"
  by (induction ws r ws' evs rule: for_loop_induct) simp_all

lemma for_loop_answers:
  "for_loop rg d ws = (r, ws', evs) \<Longrightarrow>
   answers evs = map (\<lambda>c. (c, reply rg d c)) (received evs)"
proof (induction ws r ws' evs rule: for_loop_induct)
  case (Closed ws)
  show ?case by (simp add: answers_def)
next
  case (Raised ws c cs e ws1 evs)
  have "received evs = []" using Raised(2) by (rule loop_body_received)
  then have "turn_events evs = evs" "turns evs = []"
    using turn_events_append[of evs "[]"] turns_append[of evs "[]"] by simp_all
  then show ?case using Raised(2) 
    by (simp add: answers_def loop_body_received loop_body_send_calls)
next
  case (Next ws c cs ws1 evs r ws2 evs')
  have "received evs = []" using Next(2) by (rule loop_body_received)
  then have "turn_events (evs @ evs') = evs" "turns (evs @ evs') = turns evs'"
    using for_loop_starts_with_Recv[OF Next(3)]
    by (simp_all add: turn_events_append turns_append)
  then show ?case using Next(2,4) \<open>received evs = []\<close>
    by (simp add: answers_def received_append loop_body_send_calls)
qed

lemma handler_events:
  "transcribe_handler rg d ws = (r, ws', evs) \<Longrightarrow>
   \<exists>r0 evs0. for_loop rg d ws = (r0, ws', evs0) \<and>
     (evs = Print (ascii ''Connection established for voice transcription.'') # evs0 \<and> r = r0
        \<and> r0 \<noteq> Some ConnectionClosed
      \<or> evs = Print (ascii ''Connection established for voice transcription.'') # evs0
            @ [Print (ascii ''Connection for voice transcription closed.'')]
        \<and> r = None \<and> r0 = Some ConnectionClosed)"
  by (cases "for_loop rg d ws")
     (auto simp: transcribe_handler_def split: option.splits exn.splits)

lemma handler_received:
  "transcribe_handler rg d ws = (r, ws', evs) \<Longrightarrow> received evs @ inbox ws' = inbox ws"
  by (auto dest!: handler_events simp: received_append dest: for_loop_received)

lemma handler_send_calls:
  "transcribe_handler rg d ws = (r, ws', evs) \<Longrightarrow>
   send_calls evs = concat (map (reply rg d) (received evs))"
  by (auto dest!: handler_events simp: received_append send_calls_append
      dest: for_loop_send_calls)

lemma handler_answers:
  "transcribe_handler rg d ws = (r, ws', evs) \<Longrightarrow>
   answers evs = map (\<lambda>c. (c, reply rg d c)) (received evs)"
  by (auto dest!: handler_events simp: received_append answers_snoc_Print answers_Print
      dest: for_loop_answers)

lemma loop_body_delivered:
  "loop_body rg d c ws = (None, ws', evs) \<Longrightarrow> delivered evs = send_calls evs"
  by (auto simp: loop_body_cases split: body_splits)

lemma loop_body_raises:
  "loop_body rg d c ws = (Some e, ws', evs) \<Longrightarrow>
     (\<exists>t. rg (AudioData c 16000 2) = Inr t \<and> writes_left ws = Some 0 \<and> e = ConnectionClosed
          \<and> evs = [Print (ascii ''Recognized: '' @ t), SendFailed (Text (d (transcript_object t)))])
   \<or> (rg (AudioData c 16000 2) = Inl e \<and> \<not> absorbed (Inl e) \<and> evs = [])"
  by (auto simp: loop_body_cases absorbed_def split: body_splits)

lemma loop_body_no_failed_send:
  "loop_body rg d c ws = (None, ws', evs) \<Longrightarrow> SendFailed m \<notin> set evs"
  by (auto simp: loop_body_cases split: body_splits)

lemma loop_body_peer_accepts:
  "loop_body rg d c ws = (None, ws', evs) \<Longrightarrow> peer_accepts ws (Suc n) \<Longrightarrow> peer_accepts ws' n"
  by (auto simp: loop_body_cases peer_accepts_def split: body_splits)

lemma for_loop_failed_send:
  "for_loop rg d ws = (r, ws', evs) \<Longrightarrow> SendFailed m \<in> set evs \<Longrightarrow>
   r = Some ConnectionClosed \<and> (\<exists>pre. evs = pre @ [SendFailed m])"
proof (induction ws r ws' evs rule: for_loop_induct)
  case (Closed ws)
  then show ?case by simp
next
  case (Raised ws c cs e ws1 evs)
  from loop_body_raises[OF Raised(2)] Raised(3) show ?case by auto
next
  case (Next ws c cs ws1 evs r ws2 evs')
  from Next(5) loop_body_no_failed_send[OF Next(2)] have "SendFailed m \<in> set evs'" by auto
  with Next(4) obtain pre where "r = Some ConnectionClosed" "evs' = pre @ [SendFailed m]"
    by auto
  then show ?case by auto
qed


lemma for_loop_reads_all:
  "for_loop rg d ws = (r, ws', evs) \<Longrightarrow>
   \<forall>c\<in>set (inbox ws). absorbed (rg (AudioData c 16000 2)) \<Longrightarrow>
   peer_accepts ws (length (inbox ws)) \<Longrightarrow>
   inbox ws' = [] \<and> r = closure ws \<and> delivered evs = send_calls evs"
proof (induction ws r ws' evs rule: for_loop_induct)
  case (Closed ws)
  then show ?case by simp
next
  case (Raised ws c cs e ws1 evs)
  from loop_body_raises[OF Raised(2)] Raised(1,3,4) show ?case
    by (auto simp: peer_accepts_def)
next
  case (Next ws c cs ws1 evs r ws2 evs')
  have "inbox ws1 = cs" "closure ws1 = closure ws"
    using loop_body_inbox[OF Next(2)] loop_body_closure[OF Next(2)] by simp_all
  moreover have "peer_accepts ws1 (length cs)"
    using loop_body_peer_accepts[OF Next(2)] Next(1,6) by (simp add: peer_accepts_def)
  ultimately show ?case using Next(1,4,5) loop_body_delivered[OF Next(2)]
    by (auto simp: delivered_append send_calls_append)
qed

subsection \<open>Runs of the examples\<close>

lemmas run_simps =
  for_loop_Nil for_loop_Cons loop_body_cases transcribe_handler_def AudioData_def
  sample_recognizer_def open_connection_def transcript_object_def
  quote_def escape_char_def ascii_def

text \<open>The example of the specification: speech, silence, speech.\<close>

lemma example_run:
  \<open>transcribe_handler sample_recognizer json_dumps
      (open_connection [Binary [1], Binary [], Binary [2]]) =
    (None, open_connection [],
     [Print (ascii ''Connection established for voice transcription.''),
      Recv (Binary [1]), Print (ascii ''Recognized: hello''), Sent (Text (ascii ''{"transcript": "hello"}'')),
      Recv (Binary []), Print (ascii ''Could not understand audio.''),
      Recv (Binary [2]), Print (ascii ''Recognized: world''), Sent (Text (ascii ''{"transcript": "world"}''))])\<close>
  by (simp add: run_simps)

lemma for_loop_delivered_prefix:
  "for_loop rg d ws = (r, ws', evs) \<Longrightarrow>
   \<exists>ms. send_calls evs = delivered evs @ ms \<and> length ms \<le> 1"
proof (induction ws r ws' evs rule: for_loop_induct)
  case (Closed ws)
  show ?case by simp
next
  case (Raised ws c cs e ws1 evs)
  from loop_body_raises[OF Raised(2)] show ?case by auto
next
  case (Next ws c cs ws1 evs r ws2 evs')
  with loop_body_delivered[OF Next(2)] show ?case
    by (auto simp: delivered_append send_calls_append)
qed

lemma handler_delivered_prefix:
  "transcribe_handler rg d ws = (r, ws', evs) \<Longrightarrow>
   \<exists>ms. send_calls evs = delivered evs @ ms \<and> length ms \<le> 1"
  by (auto dest!: handler_events simp: delivered_append send_calls_append
      dest: for_loop_delivered_prefix)

lemma handler_reads_all:
  assumes "transcribe_handler rg d ws = (r, ws', evs)"
    and "\<forall>c\<in>set (inbox ws). absorbed (rg (AudioData c 16000 2))"
    and "peer_accepts ws (length (inbox ws))"
  shows "inbox ws' = [] \<and> delivered evs = send_calls evs"
proof -
  from handler_events[OF assms(1)] obtain r0 evs0 where
    l: "for_loop rg d ws = (r0, ws', evs0)" and
    e: "evs = Print (ascii ''Connection established for voice transcription.'') # evs0 \<or>
        evs = Print (ascii ''Connection established for voice transcription.'') # evs0
            @ [Print (ascii ''Connection for voice transcription closed.'')]"
    by auto
  from for_loop_reads_all[OF l assms(2,3)] e show ?thesis
    by (auto simp: delivered_append send_calls_append)
qed

lemma replies_all_recognized:
  "\<forall>c\<in>set cs. \<exists>t. rg (AudioData c 16000 2) = Inr t \<Longrightarrow>
   list_all2 (\<lambda>c m. \<exists>t. rg (AudioData c 16000 2) = Inr t \<and> m = Text (d (transcript_object t)))
     cs (concat (map (reply rg d) cs))"
  by (induction cs) (auto simp: reply_def)

subsection \<open>Transcripts sent for the chunks received\<close>

text \<open>
  Claim C1. When the recognizer succeeds on every chunk of a connection, the handler calls
  \<^verbatim>\<open>websocket.send\<close> once for each chunk it received, with the transcript message of that
  chunk, in the order of the chunks: \<open>N\<close> chunks received give \<open>N\<close> transcript
  messages. On a connection whose peer stays for the writes, the handler receives every
  chunk of the inbox and every message is written, so the client gets as many messages as
  it sent chunks.
\<close>

theorem every_chunk_recognized:
  assumes "transcribe_handler rg d ws = (r, ws', evs)"
    and "\<forall>c\<in>set (inbox ws). \<exists>t. rg (AudioData c 16000 2) = Inr t"
  shows "length (send_calls evs) = length (received evs)
     \<and> list_all2 (\<lambda>c m. \<exists>t. rg (AudioData c 16000 2) = Inr t \<and> m = Text (d (transcript_object t)))
          (received evs) (send_calls evs)
     \<and> (peer_accepts ws (length (inbox ws)) \<longrightarrow>
          received evs = inbox ws \<and> delivered evs = send_calls evs
          \<and> length (delivered evs) = length (inbox ws))"
proof -
  have sub: "set (received evs) \<subseteq> set (inbox ws)"
    using handler_received[OF assms(1)] by (metis Un_upper1 set_append)
  with assms(2) have rec: "\<forall>c\<in>set (received evs). \<exists>t. rg (AudioData c 16000 2) = Inr t"
    by blast
  have l2: "list_all2 (\<lambda>c m. \<exists>t. rg (AudioData c 16000 2) = Inr t \<and> m = Text (d (transcript_object t)))
          (received evs) (send_calls evs)"
    using replies_all_recognized[OF rec] handler_send_calls[OF assms(1)] by simp
  then have len: "length (send_calls evs) = length (received evs)"
    by (simp add: list_all2_lengthD)
  have "received evs = inbox ws \<and> delivered evs = send_calls evs
          \<and> length (delivered evs) = length (inbox ws)"
    if p: "peer_accepts ws (length (inbox ws))"
  proof -
    have "\<forall>c\<in>set (inbox ws). absorbed (rg (AudioData c 16000 2))"
      using assms(2) by (auto simp: absorbed_def)
    from handler_reads_all[OF assms(1) this p] handler_received[OF assms(1)] len
    show ?thesis by simp
  qed
  with l2 len show ?thesis by blast
qed

lemma run_hello_world:
  \<open>transcribe_handler sample_recognizer json_dumps (open_connection [Binary [1], Binary [2]]) =
    (None, open_connection [],
     [Print (ascii ''Connection established for voice transcription.''),
      Recv (Binary [1]), Print (ascii ''Recognized: hello''), Sent (Text (ascii ''{"transcript": "hello"}'')),
      Recv (Binary [2]), Print (ascii ''Recognized: world''), Sent (Text (ascii ''{"transcript": "world"}''))])\<close>
  by (simp add: run_simps)

theorem every_chunk_recognized_witness:
  \<open>sample_recognizer (AudioData (Binary [1]) 16000 2) = Inr (ascii ''hello'')
   \<and> sample_recognizer (AudioData (Binary [2]) 16000 2) = Inr (ascii ''world'')
   \<and> peer_accepts (open_connection [Binary [1], Binary [2]]) 2
   \<and> delivered (snd (snd (transcribe_handler sample_recognizer json_dumps
          (open_connection [Binary [1], Binary [2]])))) =
       [Text (ascii ''{"transcript": "hello"}''), Text (ascii ''{"transcript": "world"}'')]
   \<and> length (send_calls (snd (snd (transcribe_handler sample_recognizer json_dumps
          (open_connection [Binary [1], Binary [2]]))))) = 2\<close>
proof -
  have ok: "\<forall>c\<in>set (inbox (open_connection [Binary [1], Binary [2]])).
       \<exists>t. sample_recognizer (AudioData c 16000 2) = Inr t"
    by (simp add: open_connection_def sample_recognizer_def AudioData_def)
  have acc: "peer_accepts (open_connection [Binary [1], Binary [2]]) 2"
    by (simp add: open_connection_def peer_accepts_def)
  show ?thesis
    using every_chunk_recognized[OF run_hello_world ok] acc
    by (simp add: run_hello_world sample_recognizer_def AudioData_def)
qed

text \<open>
  Claim C2. On any connection, whatever the recognizer answers, each chunk the handler
  received is followed in its turn by the send call of its own transcript message if the
  recognizer succeeded on it, and by no send call if the recognizer raised. So the messages
  sent are those of the recognized chunks, in the order of the chunks, and what reaches the
  peer is that list, short of its last message when the write of it failed. On a
  connection whose chunks are all recognized or fail in one of the two ways, and whose peer
  stays for the writes, the handler receives every chunk of the inbox, and the messages
  that reach the peer are the transcript messages of the recognizable chunks of the inbox,
  in their order, with nothing for the others.
\<close>

theorem only_recognized_chunks_answered:
  assumes "transcribe_handler rg d ws = (r, ws', evs)"
  shows "answers evs = map (\<lambda>c. (c, reply rg d c)) (received evs)
     \<and> send_calls evs = concat (map (reply rg d) (received evs))
     \<and> (\<exists>ms. send_calls evs = delivered evs @ ms \<and> length ms \<le> 1)
     \<and> (\<forall>c e. rg (AudioData c 16000 2) = Inl e \<longrightarrow> reply rg d c = [])
     \<and> (\<forall>c t. rg (AudioData c 16000 2) = Inr t \<longrightarrow>
           reply rg d c = [Text (d (transcript_object t))])
     \<and> ((\<forall>c\<in>set (inbox ws). absorbed (rg (AudioData c 16000 2)))
          \<and> peer_accepts ws (length (inbox ws)) \<longrightarrow>
           received evs = inbox ws
         \<and> delivered evs = concat (map (reply rg d) (inbox ws))
         \<and> answers evs = map (\<lambda>c. (c, reply rg d c)) (inbox ws))"
proof -
  have 1: "answers evs = map (\<lambda>c. (c, reply rg d c)) (received evs)"
    by (rule handler_answers[OF assms])
  have 2: "send_calls evs = concat (map (reply rg d) (received evs))"
    by (rule handler_send_calls[OF assms])
  have 3: "\<exists>ms. send_calls evs = delivered evs @ ms \<and> length ms \<le> 1"
    by (rule handler_delivered_prefix[OF assms])
  have 4: "\<forall>c e. rg (AudioData c 16000 2) = Inl e \<longrightarrow> reply rg d c = []"
    by (simp add: reply_def)
  have 5: "\<forall>c t. rg (AudioData c 16000 2) = Inr t \<longrightarrow>
           reply rg d c = [Text (d (transcript_object t))]"
    by (simp add: reply_def)
  have 6: "received evs = inbox ws
         \<and> delivered evs = concat (map (reply rg d) (inbox ws))
         \<and> answers evs = map (\<lambda>c. (c, reply rg d c)) (inbox ws)"
    if h: "(\<forall>c\<in>set (inbox ws). absorbed (rg (AudioData c 16000 2)))
          \<and> peer_accepts ws (length (inbox ws))"
  proof -
    from h have "inbox ws' = [] \<and> delivered evs = send_calls evs"
      using handler_reads_all[OF assms] by blast
    moreover have "received evs @ inbox ws' = inbox ws"
      by (rule handler_received[OF assms])
    ultimately show ?thesis using 1 2 by simp
  qed
  from 1 2 3 4 5 6 show ?thesis by blast
qed

lemma run_mixed:
  \<open>transcribe_handler sample_recognizer json_dumps
      (open_connection [Binary [1], Binary [], Binary [3], Binary [2]]) =
    (None, open_connection [],
     [Print (ascii ''Connection established for voice transcription.''),
      Recv (Binary [1]), Print (ascii ''Recognized: hello''), Sent (Text (ascii ''{"transcript": "hello"}'')),
      Recv (Binary []), Print (ascii ''Could not understand audio.''),
      Recv (Binary [3]), Print (ascii ''Google API Error: quota exceeded''),
      Recv (Binary [2]), Print (ascii ''Recognized: world''), Sent (Text (ascii ''{"transcript": "world"}''))])\<close>
  by (simp add: run_simps)

theorem only_recognized_chunks_answered_witness:
  \<open>absorbed (sample_recognizer (AudioData (Binary [1]) 16000 2))
   \<and> absorbed (sample_recognizer (AudioData (Binary []) 16000 2))
   \<and> absorbed (sample_recognizer (AudioData (Binary [3]) 16000 2))
   \<and> absorbed (sample_recognizer (AudioData (Binary [2]) 16000 2))
   \<and> peer_accepts (open_connection [Binary [1], Binary [], Binary [3], Binary [2]]) 4
   \<and> received (snd (snd (transcribe_handler sample_recognizer json_dumps
      (open_connection [Binary [1], Binary [], Binary [3], Binary [2]])))) =
     [Binary [1], Binary [], Binary [3], Binary [2]]
   \<and> answers (snd (snd (transcribe_handler sample_recognizer json_dumps
      (open_connection [Binary [1], Binary [], Binary [3], Binary [2]])))) =
     [(Binary [1], [Text (ascii ''{"transcript": "hello"}'')]), (Binary [], []), (Binary [3], []),
      (Binary [2], [Text (ascii ''{"transcript": "world"}'')])]
   \<and> delivered (snd (snd (transcribe_handler sample_recognizer json_dumps
      (open_connection [Binary [1], Binary [], Binary [3], Binary [2]])))) =
     [Text (ascii ''{"transcript": "hello"}''), Text (ascii ''{"transcript": "world"}'')]\<close>
proof -
  have p: "peer_accepts (open_connection [Binary [1], Binary [], Binary [3], Binary [2]]) 4"
    by (simp add: peer_accepts_def open_connection_def)
  have a: "absorbed (sample_recognizer (AudioData (Binary [1]) 16000 2))"
    "absorbed (sample_recognizer (AudioData (Binary []) 16000 2))"
    "absorbed (sample_recognizer (AudioData (Binary [3]) 16000 2))"
    "absorbed (sample_recognizer (AudioData (Binary [2]) 16000 2))"
    by (simp_all add: absorbed_def sample_recognizer_def AudioData_def)
  have i: "inbox (open_connection [Binary [1], Binary [], Binary [3], Binary [2]]) =
      [Binary [1], Binary [], Binary [3], Binary [2]]"
    by (simp add: open_connection_def)
  have r: \<open>map (\<lambda>c. (c, reply sample_recognizer json_dumps c))
       [Binary [1], Binary [], Binary [3], Binary [2]] =
     [(Binary [1], [Text (ascii ''{"transcript": "hello"}'')]), (Binary [], []), (Binary [3], []),
      (Binary [2], [Text (ascii ''{"transcript": "world"}'')])]\<close>
    by (simp add: reply_def sample_recognizer_def AudioData_def transcript_object_def
        quote_def escape_char_def ascii_def)
  from only_recognized_chunks_answered[OF run_mixed] p a
  have "received (snd (snd (transcribe_handler sample_recognizer json_dumps
      (open_connection [Binary [1], Binary [], Binary [3], Binary [2]])))) =
       [Binary [1], Binary [], Binary [3], Binary [2]]
    \<and> delivered (snd (snd (transcribe_handler sample_recognizer json_dumps
      (open_connection [Binary [1], Binary [], Binary [3], Binary [2]])))) =
       concat (map (reply sample_recognizer json_dumps)
         [Binary [1], Binary [], Binary [3], Binary [2]])
    \<and> answers (snd (snd (transcribe_handler sample_recognizer json_dumps
      (open_connection [Binary [1], Binary [], Binary [3], Binary [2]])))) =
       map (\<lambda>c. (c, reply sample_recognizer json_dumps c))
         [Binary [1], Binary [], Binary [3], Binary [2]]"
    by (simp add: i run_mixed)
  moreover have \<open>concat (map (reply sample_recognizer json_dumps)
         [Binary [1], Binary [], Binary [3], Binary [2]]) =
     [Text (ascii ''{"transcript": "hello"}''), Text (ascii ''{"transcript": "world"}'')]\<close>
    by (simp add: reply_def sample_recognizer_def AudioData_def transcript_object_def
        quote_def escape_char_def ascii_def)
  ultimately show ?thesis using p a r by simp
qed



lemma run_silence_then_hello:
  \<open>transcribe_handler sample_recognizer json_dumps (open_connection [Binary [], Binary [1]]) =
    (None, open_connection [],
     [Print (ascii ''Connection established for voice transcription.''),
      Recv (Binary []), Print (ascii ''Could not understand audio.''),
      Recv (Binary [1]), Print (ascii ''Recognized: hello''), Sent (Text (ascii ''{"transcript": "hello"}''))])\<close>
  by (simp add: run_simps)

lemma run_quota_then_hello:
  \<open>transcribe_handler sample_recognizer json_dumps (open_connection [Binary [3], Binary [1]]) =
    (None, open_connection [],
     [Print (ascii ''Connection established for voice transcription.''),
      Recv (Binary [3]), Print (ascii ''Google API Error: quota exceeded''),
      Recv (Binary [1]), Print (ascii ''Recognized: hello''), Sent (Text (ascii ''{"transcript": "hello"}''))])\<close>
  by (simp add: run_simps)


text \<open>
  Claim C5. A write that fails ends the session at once and cleanly: when a call of
  \<^verbatim>\<open>websocket.send\<close> raises, the handler returns normally (no exception escapes it),
  the failed call is its last action but for the line that the clause for a closed
  connection prints, and the chunks that follow stay unread. It is the path of a closed
  connection: a session whose iterator raises \<open>ConnectionClosed\<close> also returns normally
  after printing that line.
\<close>

theorem write_failure_ends_session:
  "(transcribe_handler rg d ws = (r, ws', evs) \<and> SendFailed m \<in> set evs \<longrightarrow>
      r = None
    \<and> (\<exists>pre. evs = pre @ [SendFailed m, Print (ascii ''Connection for voice transcription closed.'')])
    \<and> received evs @ inbox ws' = inbox ws)
 \<and> (inbox ws = [] \<and> closure ws = Some ConnectionClosed \<longrightarrow>
      transcribe_handler rg d ws =
        (None, ws, [Print (ascii ''Connection established for voice transcription.''),
                    Print (ascii ''Connection for voice transcription closed.'')]))"
proof (intro conjI impI)
  assume a: "transcribe_handler rg d ws = (r, ws', evs) \<and> SendFailed m \<in> set evs"
  then obtain r0 evs0 where l: "for_loop rg d ws = (r0, ws', evs0)" and
    e: "evs = Print (ascii ''Connection established for voice transcription.'') # evs0 \<and> r = r0
        \<and> r0 \<noteq> Some ConnectionClosed
      \<or> evs = Print (ascii ''Connection established for voice transcription.'') # evs0
            @ [Print (ascii ''Connection for voice transcription closed.'')]
        \<and> r = None \<and> r0 = Some ConnectionClosed"
    using handler_events by blast
  from a e have "SendFailed m \<in> set evs0" by auto
  from for_loop_failed_send[OF l this] obtain pre where
    p: "r0 = Some ConnectionClosed" "evs0 = pre @ [SendFailed m]" by blast
  with e have "r = None" and
    "evs = (Print (ascii ''Connection established for voice transcription.'') # pre)
       @ [SendFailed m, Print (ascii ''Connection for voice transcription closed.'')]"
    by auto
  then show "r = None" and
    "\<exists>pre. evs = pre @ [SendFailed m, Print (ascii ''Connection for voice transcription closed.'')]"
    by blast+
  from a show "received evs @ inbox ws' = inbox ws" by (auto dest: handler_received)
next
  assume "inbox ws = [] \<and> closure ws = Some ConnectionClosed"
  then show "transcribe_handler rg d ws =
        (None, ws, [Print (ascii ''Connection established for voice transcription.''),
                    Print (ascii ''Connection for voice transcription closed.'')])"
    by (simp add: transcribe_handler_def for_loop_Nil)
qed

lemma run_peer_gone:
  \<open>transcribe_handler sample_recognizer json_dumps
      \<lparr>inbox = [Binary [1], Binary [2], Binary [1]], closure = None, writes_left = Some 1\<rparr> =
    (None, \<lparr>inbox = [Binary [1]], closure = None, writes_left = Some 0\<rparr>,
     [Print (ascii ''Connection established for voice transcription.''),
      Recv (Binary [1]), Print (ascii ''Recognized: hello''), Sent (Text (ascii ''{"transcript": "hello"}'')),
      Recv (Binary [2]), Print (ascii ''Recognized: world''),
      SendFailed (Text (ascii ''{"transcript": "world"}'')),
      Print (ascii ''Connection for voice transcription closed.'')])\<close>
  by (simp add: run_simps)

theorem write_failure_ends_session_witness:
  \<open>fst (transcribe_handler sample_recognizer json_dumps
      \<lparr>inbox = [Binary [1], Binary [2], Binary [1]], closure = None, writes_left = Some 1\<rparr>)
     = None
   \<and> inbox (fst (snd (transcribe_handler sample_recognizer json_dumps
      \<lparr>inbox = [Binary [1], Binary [2], Binary [1]], closure = None, writes_left = Some 1\<rparr>)))
     = [Binary [1]]
   \<and> transcribe_handler sample_recognizer json_dumps
        \<lparr>inbox = [], closure = Some ConnectionClosed, writes_left = None\<rparr> =
      (None, \<lparr>inbox = [], closure = Some ConnectionClosed, writes_left = None\<rparr>,
       [Print (ascii ''Connection established for voice transcription.''),
        Print (ascii ''Connection for voice transcription closed.'')])\<close>
proof -
  note t = write_failure_ends_session[where rg = sample_recognizer and d = json_dumps]
  have 1: \<open>fst (transcribe_handler sample_recognizer json_dumps
      \<lparr>inbox = [Binary [1], Binary [2], Binary [1]], closure = None, writes_left = Some 1\<rparr>)
     = None
   \<and> inbox (fst (snd (transcribe_handler sample_recognizer json_dumps
      \<lparr>inbox = [Binary [1], Binary [2], Binary [1]], closure = None, writes_left = Some 1\<rparr>)))
     = [Binary [1]]\<close>
    using run_peer_gone
      t[where ws = "\<lparr>inbox = [Binary [1], Binary [2], Binary [1]], closure = None,
                      writes_left = Some 1\<rparr>"
          and r = None and m = \<open>Text (ascii ''{"transcript": "world"}'')\<close>
          and ws' = "\<lparr>inbox = [Binary [1]], closure = None, writes_left = Some 0\<rparr>",
        THEN conjunct1]
    by simp
  have 2: \<open>transcribe_handler sample_recognizer json_dumps
        \<lparr>inbox = [], closure = Some ConnectionClosed, writes_left = None\<rparr> =
      (None, \<lparr>inbox = [], closure = Some ConnectionClosed, writes_left = None\<rparr>,
       [Print (ascii ''Connection established for voice transcription.''),
        Print (ascii ''Connection for voice transcription closed.'')])\<close>
    using t[where ws = "\<lparr>inbox = [], closure = Some ConnectionClosed, writes_left = None\<rparr>",
        THEN conjunct2]
    by simp
  from 1 2 show ?thesis by (intro conjI) simp_all
qed

text \<open>
  Claim C7. In every session and for every chunk it received, the turn of the loop for
  that chunk holds at most one call of \<^verbatim>\<open>websocket.send\<close>, and holds one only if the
  recognizer returned a text for the chunk, the message being the transcript of that text.
  Every chunk received has its turn.
\<close>

theorem at_most_one_transcript_per_chunk:
  "(transcribe_handler rg d ws = (r, ws', evs) \<and> (c, tevs) \<in> set (turns evs) \<longrightarrow>
      length (send_calls tevs) \<le> 1
    \<and> (send_calls tevs = [] \<or>
        (\<exists>t. rg (AudioData c 16000 2) = Inr t
             \<and> send_calls tevs = [Text (d (transcript_object t))])))
 \<and> map fst (turns evs) = received evs"
proof (intro conjI impI)
  assume a: "transcribe_handler rg d ws = (r, ws', evs) \<and> (c, tevs) \<in> set (turns evs)"
  then have "(c, send_calls tevs) \<in> set (answers evs)"
    by (force simp: answers_def)
  with a have s: "send_calls tevs = reply rg d c"
    by (auto simp: handler_answers)
  show "length (send_calls tevs) \<le> 1"
    unfolding s by (simp add: reply_def split: sum.splits)
  show "send_calls tevs = [] \<or>
        (\<exists>t. rg (AudioData c 16000 2) = Inr t
             \<and> send_calls tevs = [Text (d (transcript_object t))])"
    unfolding s by (simp add: reply_def split: sum.splits)
next
  show "map fst (turns evs) = received evs" by (rule map_fst_turns)
qed

theorem at_most_one_transcript_per_chunk_witness:
  \<open>turns (snd (snd (transcribe_handler sample_recognizer json_dumps
      (open_connection [Binary [1], Binary []])))) =
     [(Binary [1], [Print (ascii ''Recognized: hello''), Sent (Text (ascii ''{"transcript": "hello"}''))]),
      (Binary [], [Print (ascii ''Could not understand audio.'')])]
   \<and> length (send_calls [Print (ascii ''Recognized: hello''), Sent (Text (ascii ''{"transcript": "hello"}''))]) \<le> 1
   \<and> length (send_calls [Print (ascii ''Could not understand audio.'')]) \<le> 1\<close>
proof -
  have h: \<open>transcribe_handler sample_recognizer json_dumps
      (open_connection [Binary [1], Binary []]) =
    (None, open_connection [],
     [Print (ascii ''Connection established for voice transcription.''),
      Recv (Binary [1]), Print (ascii ''Recognized: hello''), Sent (Text (ascii ''{"transcript": "hello"}'')),
      Recv (Binary []), Print (ascii ''Could not understand audio.'')])\<close>
    by (simp add: run_simps)
  note t = at_most_one_transcript_per_chunk[where rg = sample_recognizer and d = json_dumps
      and ws = "open_connection [Binary [1], Binary []]"]
  show ?thesis
    using h t[where c = "Binary [1]"
        and tevs = \<open>[Print (ascii ''Recognized: hello''), Sent (Text (ascii ''{"transcript": "hello"}''))]\<close>,
        THEN conjunct1]
      t[where c = "Binary []" and tevs = \<open>[Print (ascii ''Could not understand audio.'')]\<close>,
        THEN conjunct1]
    by simp
qed

subsection \<open>The message on the wire\<close>

declare scan_string.simps [simp del]

lemma hex_value_hex_digit: "n < 16 \<Longrightarrow> hex_value (hex_digit n) = Some n"
  by (simp add: hex_value_def hex_digit_def)

lemma hex_digits_value:
  assumes "(n::nat) < 65536"
  shows "((n div 4096 mod 16 * 16 + n div 256 mod 16) * 16 + n div 16 mod 16) * 16 + n mod 16 = n"
proof -
  define a where "a = n div 16"
  define b where "b = a div 16"
  define c where "c = b div 16"
  have n256: "n div 256 = b" unfolding b_def a_def by (simp add: div_mult2_eq)
  have n4096: "n div 4096 = c" unfolding c_def b_def a_def by (simp add: div_mult2_eq)
  have "c < 16" using assms unfolding n4096[symmetric] by simp
  then have c: "c mod 16 = c" by simp
  have 1: "n = a * 16 + n mod 16" unfolding a_def by simp
  have 2: "a = b * 16 + a mod 16" unfolding b_def by simp
  have 3: "b = c * 16 + b mod 16" unfolding c_def by simp
  have "((c * 16 + b mod 16) * 16 + a mod 16) * 16 + n mod 16 = n"
    using 1 2 3 by simp
  then show ?thesis by (simp add: n256 n4096 c a_def[symmetric])
qed

lemma hex4_u_escape:
  "n < 65536 \<Longrightarrow>
   hex4 (hex_digit (n div 4096 mod 16)) (hex_digit (n div 256 mod 16))
        (hex_digit (n div 16 mod 16)) (hex_digit (n mod 16)) = Some n"
  using hex_digits_value[of n] by (simp add: hex4_def hex_value_hex_digit)

lemma scan_quote: "scan_string (34 # cs) = Some ([], cs)"
  by (simp add: scan_string.simps)

lemma scan_plain:
  "32 \<le> c \<Longrightarrow> c \<noteq> 34 \<Longrightarrow> c \<noteq> 92 \<Longrightarrow> scan_string (c # cs) = prepend c (scan_string cs)"
  by (simp add: scan_string.simps)

lemma scan_backslash:
  "unescape e = Some ch \<Longrightarrow> scan_string (92 # e # cs) = prepend ch (scan_string cs)"
  by (auto simp: scan_string.simps unescape_def split: if_splits)

lemma scan_u:
  "hex4 a b c d = Some uni \<Longrightarrow> \<not> (55296 \<le> uni \<and> uni \<le> 56319) \<Longrightarrow>
   scan_string (92 # 117 # a # b # c # d # cs) = prepend uni (scan_string cs)"
  by (auto simp: scan_string.simps)

lemma scan_pair:
  "hex4 a b c d = Some hi \<Longrightarrow> 55296 \<le> hi \<Longrightarrow> hi \<le> 56319 \<Longrightarrow>
   hex4 a2 b2 c2 d2 = Some lo \<Longrightarrow> 56320 \<le> lo \<Longrightarrow> lo \<le> 57343 \<Longrightarrow>
   scan_string (92 # 117 # a # b # c # d # 92 # 117 # a2 # b2 # c2 # d2 # cs) =
     prepend (65536 + ((hi - 55296) * 1024 + (lo - 56320))) (scan_string cs)"
  by (simp add: scan_string.simps)

lemma scan_u_escape:
  "n < 65536 \<Longrightarrow> \<not> (55296 \<le> n \<and> n \<le> 56319) \<Longrightarrow>
   scan_string (u_escape n @ cs) = prepend n (scan_string cs)"
  using scan_u[OF hex4_u_escape] by (simp add: u_escape_def)

lemma scan_u_escape_pair:
  assumes "65536 \<le> c" "c < 1114112"
  shows "scan_string (u_escape (55296 + (c - 65536) div 1024 mod 1024)
           @ u_escape (56320 + (c - 65536) mod 1024) @ cs) = prepend c (scan_string cs)"
proof -
  define m where "m = c - 65536"
  have m: "m < 1048576" using assms by (simp add: m_def)
  then have q: "m div 1024 < 1024" by simp
  then have q': "m div 1024 mod 1024 = m div 1024" by simp
  define hi where "hi = 55296 + m div 1024"
  define lo where "lo = 56320 + m mod 1024"
  have hi: "55296 \<le> hi" "hi \<le> 56319" "hi < 65536" using q by (simp_all add: hi_def)
  have lo: "56320 \<le> lo" "lo \<le> 57343" "lo < 65536" by (simp_all add: lo_def)
  have "65536 + ((hi - 55296) * 1024 + (lo - 56320)) = 65536 + m"
    by (simp add: hi_def lo_def)
  also have "\<dots> = c" using assms by (simp add: m_def)
  finally have v: "65536 + ((hi - 55296) * 1024 + (lo - 56320)) = c" .
  have "scan_string (u_escape hi @ u_escape lo @ cs) = prepend c (scan_string cs)"
    using scan_pair[OF hex4_u_escape[OF hi(3)] hi(1,2) hex4_u_escape[OF lo(3)] lo(1,2), of cs] v
    by (simp add: u_escape_def)
  then show ?thesis by (simp add: hi_def lo_def m_def[symmetric] q')
qed

lemma scan_escape_char:
  assumes "scalar c"
  shows "scan_string (escape_char c @ cs) = prepend c (scan_string cs)"
proof -
  consider "c = 34" | "c = 92" | "c = 10" | "c = 13" | "c = 9" | "c = 8" | "c = 12"
    | "32 \<le> c" "c \<le> 126" "c \<noteq> 34" "c \<noteq> 92"
    | "c < 32" "c \<noteq> 10" "c \<noteq> 13" "c \<noteq> 9" "c \<noteq> 8" "c \<noteq> 12"
    | "126 < c" "c < 65536"
    | "65536 \<le> c"
    by linarith
  then show ?thesis
  proof cases
    case 8
    then show ?thesis by (simp add: escape_char_def scan_plain)
  next
    case 9
    then have "escape_char c = u_escape c" by (simp add: escape_char_def)
    with 9 show ?thesis by (simp add: scan_u_escape)
  next
    case 10
    then have "escape_char c = u_escape c" by (simp add: escape_char_def)
    moreover have "\<not> (55296 \<le> c \<and> c \<le> 56319)" using assms by (auto simp: scalar_def)
    ultimately show ?thesis using 10 by (simp add: scan_u_escape)
  next
    case 11
    then have "escape_char c = u_escape (55296 + (c - 65536) div 1024 mod 1024)
         @ u_escape (56320 + (c - 65536) mod 1024)" by (simp add: escape_char_def)
    moreover have "c < 1114112" using assms 11 by (auto simp: scalar_def)
    ultimately show ?thesis using 11 by (simp only: append_assoc scan_u_escape_pair)
  qed (simp_all add: escape_char_def scan_backslash unescape_def)
qed

lemma scan_escaped:
  "well_formed s \<Longrightarrow>
   scan_string (concat (map escape_char s) @ 34 # rest) = Some (s, rest)"
  by (induction s) (simp_all add: well_formed_def scan_quote scan_escape_char prepend_def)

lemma parse_string_quote:
  "well_formed s \<Longrightarrow> parse_string (quote s @ rest) = Some (s, rest)"
  by (simp add: parse_string_def quote_def scan_escaped)

lemma well_formed_ascii: "well_formed (ascii s)"
proof -
  have "scalar (of_char c)" for c :: char
  proof -
    have "(of_char c :: nat) < 256" by (rule nat_of_char_less_256)
    then show ?thesis unfolding scalar_def by linarith
  qed
  then show ?thesis by (simp add: well_formed_def ascii_def list_all_iff)
qed

lemma skip_ws_quote: "skip_ws (quote s @ rest) = quote s @ rest"
  by (simp add: skip_ws_def quote_def)

lemma parse_value_object:
  "parse_members (length (quote k @ r)) (quote k @ r) = Some (ms, r') \<Longrightarrow>
   parse_value (123 # quote k @ r) = Some (JObject ms, r')"
  by (simp add: parse_value_def skip_ws_def quote_def del: parse_members.simps)

lemma loads_dumps_transcript:
  assumes "well_formed t"
  shows "json_loads (json_dumps (transcript_object t)) = Some (transcript_object t)"
proof -
  let ?k = "ascii ''transcript''"
  have d: "json_dumps (transcript_object t) = 123 # quote ?k @ [58, 32] @ quote t @ [125]"
    by (simp add: transcript_object_def)
  have k: "parse_string (quote ?k @ [58, 32] @ quote t @ [125]) = Some (?k, [58, 32] @ quote t @ [125])"
    by (rule parse_string_quote) (rule well_formed_ascii)
  have v: "parse_string (quote t @ [125]) = Some (t, [125])"
    using assms by (rule parse_string_quote)
  have s: "skip_ws (32 # quote t @ [125]) = quote t @ [125]"
    using skip_ws_quote[of t "[125]"] by (simp add: skip_ws_def)
  have m: "parse_member (quote ?k @ [58, 32] @ quote t @ [125]) = Some ((?k, JString t), [125])"
    using k v s by (simp add: parse_member_def skip_ws_def)
  obtain n where n: "length (quote ?k @ [58, 32] @ quote t @ [125]) = Suc n"
    by (cases "length (quote ?k @ [58, 32] @ quote t @ [125])") simp_all
  have ms: "parse_members (length (quote ?k @ [58, 32] @ quote t @ [125]))
      (quote ?k @ [58, 32] @ quote t @ [125]) = Some ([(?k, JString t)], [])"
    unfolding n using m by (simp add: skip_ws_def)
  have "parse_value (123 # quote ?k @ [58, 32] @ quote t @ [125]) =
      Some (JObject [(?k, JString t)], [])"
    by (rule parse_value_object) (rule ms)
  then show ?thesis
    unfolding d by (simp add: json_loads_def skip_ws_def transcript_object_def)
qed

lemma escape_char_ascii: "list_all (\<lambda>ch. ch < 128) (escape_char c)"
proof -
  have "hex_digit k < 128" if "k < 16" for k
    using that by (simp add: hex_digit_def)
  then show ?thesis by (simp add: escape_char_def u_escape_def)
qed

lemma quote_ascii: "list_all (\<lambda>ch. ch < 128) (quote s)"
  by (induction s) (simp_all add: quote_def escape_char_ascii)

lemma dumps_transcript_ascii: "list_all (\<lambda>ch. ch < 128) (json_dumps (transcript_object t))"
  by (simp add: transcript_object_def quote_ascii)

lemma concat_reply_member:
  "m \<in> set (concat (map (reply rg d) cs)) \<Longrightarrow>
   \<exists>c t. c \<in> set cs \<and> rg (AudioData c 16000 2) = Inr t \<and> m = Text (d (transcript_object t))"
proof -
  assume "m \<in> set (concat (map (reply rg d) cs))"
  then obtain c where c: "c \<in> set cs" "m \<in> set (reply rg d c)" by auto
  then obtain t where "rg (AudioData c 16000 2) = Inr t" "m = Text (d (transcript_object t))"
    by (cases "rg (AudioData c 16000 2)") (simp_all add: reply_def)
  with c show ?thesis by blast
qed

text \<open>
  Claim C8. The messages of a session are the transcript messages of the chunks it
  recognized: a chunk received and recognized as a text has the encoding of the object of
  line 19 for that text among the send calls, and every send call carries, in a text
  frame, such an encoding for a chunk received. The object has exactly one key,
  \<open>transcript\<close>, whose value is the recognized text. With the encoder of the standard
  library, the message is made of ASCII characters only, so that its UTF-8 encoding is the
  message itself, and for a recognized text of Unicode scalar values a client decoding the
  message gets back the object with the one key \<open>transcript\<close> and the recognized text,
  whatever its code points, as the value.
\<close>

theorem transcript_message_shape:
  "(transcribe_handler rg d ws = (r, ws', evs) \<and> m \<in> set (send_calls evs) \<longrightarrow>
      (\<exists>c t. c \<in> set (received evs) \<and> rg (AudioData c 16000 2) = Inr t
            \<and> m = Text (d (transcript_object t))))
 \<and> (transcribe_handler rg d ws = (r, ws', evs) \<and> c \<in> set (received evs)
      \<and> rg (AudioData c 16000 2) = Inr t \<longrightarrow>
      Text (d (transcript_object t)) \<in> set (send_calls evs))
 \<and> keys (transcript_object t) = [ascii ''transcript'']
 \<and> member_of (transcript_object t) (ascii ''transcript'') = Some (JString t)
 \<and> list_all (\<lambda>ch. ch < 128) (json_dumps (transcript_object t))
 \<and> (well_formed t \<longrightarrow>
      json_loads (json_dumps (transcript_object t)) =
        Some (JObject [(ascii ''transcript'', JString t)]))
 \<and> (transcribe_handler rg json_dumps ws = (r, ws', evs) \<and> m \<in> set (send_calls evs)
      \<and> (\<forall>c\<in>set (received evs). \<forall>t. rg (AudioData c 16000 2) = Inr t \<longrightarrow> well_formed t) \<longrightarrow>
      (\<exists>c t body. c \<in> set (received evs) \<and> rg (AudioData c 16000 2) = Inr t
            \<and> m = Text body \<and> list_all (\<lambda>ch. ch < 128) body
            \<and> json_loads body = Some (JObject [(ascii ''transcript'', JString t)])))"
proof (intro conjI impI)
  assume "transcribe_handler rg d ws = (r, ws', evs) \<and> m \<in> set (send_calls evs)"
  then show "\<exists>c t. c \<in> set (received evs) \<and> rg (AudioData c 16000 2) = Inr t
            \<and> m = Text (d (transcript_object t))"
    using concat_reply_member[of m rg d "received evs"] by (auto simp: handler_send_calls)
next
  assume a: "transcribe_handler rg d ws = (r, ws', evs) \<and> c \<in> set (received evs)
      \<and> rg (AudioData c 16000 2) = Inr t"
  then have "Text (d (transcript_object t)) \<in> set (reply rg d c)"
    by (simp add: reply_def)
  with a have "Text (d (transcript_object t)) \<in> set (concat (map (reply rg d) (received evs)))"
    by (auto intro!: bexI[of _ c])
  moreover from a have "send_calls evs = concat (map (reply rg d) (received evs))"
    by (auto dest: handler_send_calls)
  ultimately show "Text (d (transcript_object t)) \<in> set (send_calls evs)"
    by simp
next
  show "keys (transcript_object t) = [ascii ''transcript'']"
    by (simp add: transcript_object_def)
  show "member_of (transcript_object t) (ascii ''transcript'') = Some (JString t)"
    by (simp add: transcript_object_def)
  show "list_all (\<lambda>ch. ch < 128) (json_dumps (transcript_object t))"
    by (rule dumps_transcript_ascii)
next
  assume "well_formed t"
  then show "json_loads (json_dumps (transcript_object t)) =
        Some (JObject [(ascii ''transcript'', JString t)])"
    using loads_dumps_transcript[of t] by (simp add: transcript_object_def)
next
  assume a: "transcribe_handler rg json_dumps ws = (r, ws', evs) \<and> m \<in> set (send_calls evs)
      \<and> (\<forall>c\<in>set (received evs). \<forall>t. rg (AudioData c 16000 2) = Inr t \<longrightarrow> well_formed t)"
  then obtain c t where ct: "c \<in> set (received evs)" "rg (AudioData c 16000 2) = Inr t"
      "m = Text (json_dumps (transcript_object t))"
    using concat_reply_member[of m rg json_dumps "received evs"]
    by (auto simp: handler_send_calls)
  with a have "well_formed t" by blast
  then have "json_loads (json_dumps (transcript_object t)) =
        Some (JObject [(ascii ''transcript'', JString t)])"
    using loads_dumps_transcript[of t] by (simp add: transcript_object_def)
  with ct dumps_transcript_ascii[of t]
  show "\<exists>c t body. c \<in> set (received evs) \<and> rg (AudioData c 16000 2) = Inr t
            \<and> m = Text body \<and> list_all (\<lambda>ch. ch < 128) body
            \<and> json_loads body = Some (JObject [(ascii ''transcript'', JString t)])"
    by blast
qed

lemma run_unicode:
  \<open>transcribe_handler unicode_recognizer json_dumps (open_connection [Binary [1]]) =
    (None, open_connection [],
     [Print (ascii ''Connection established for voice transcription.''),
      Recv (Binary [1]), Print (ascii ''Recognized: '' @ [99, 97, 102, 233, 32, 128512]),
      Sent (Text (ascii ''{"transcript": "caf'' @ [92] @ ascii ''u00e9 '' @ [92]
                   @ ascii ''ud83d'' @ [92] @ ascii ''ude00"}''))])\<close>
  by (simp add: for_loop_Nil for_loop_Cons loop_body_cases transcribe_handler_def AudioData_def
      unicode_recognizer_def open_connection_def transcript_object_def quote_def
      escape_char_def u_escape_def hex_digit_def ascii_def)

theorem transcript_message_shape_witness:
  \<open>unicode_recognizer (AudioData (Binary [1]) 16000 2) = Inr [99, 97, 102, 233, 32, 128512]
   \<and> well_formed [99, 97, 102, 233, 32, 128512]
   \<and> send_calls (snd (snd (transcribe_handler unicode_recognizer json_dumps
        (open_connection [Binary [1]])))) =
       [Text (ascii ''{"transcript": "caf'' @ [92] @ ascii ''u00e9 '' @ [92]
               @ ascii ''ud83d'' @ [92] @ ascii ''ude00"}'')]
   \<and> json_loads (ascii ''{"transcript": "caf'' @ [92] @ ascii ''u00e9 '' @ [92]
               @ ascii ''ud83d'' @ [92] @ ascii ''ude00"}'') =
       Some (JObject [(ascii ''transcript'', JString [99, 97, 102, 233, 32, 128512])])\<close>
proof -
  have k: "unicode_recognizer (AudioData (Binary [1]) 16000 2) = Inr [99, 97, 102, 233, 32, 128512]"
    by (simp add: unicode_recognizer_def)
  have w: "well_formed [99, 97, 102, 233, 32, 128512]"
    by (simp add: well_formed_def scalar_def)
  have d: \<open>json_dumps (transcript_object [99, 97, 102, 233, 32, 128512]) =
      ascii ''{"transcript": "caf'' @ [92] @ ascii ''u00e9 '' @ [92]
               @ ascii ''ud83d'' @ [92] @ ascii ''ude00"}''\<close>
    by (simp add: transcript_object_def quote_def escape_char_def u_escape_def hex_digit_def
        ascii_def)
  have s: \<open>send_calls (snd (snd (transcribe_handler unicode_recognizer json_dumps
        (open_connection [Binary [1]])))) =
       [Text (ascii ''{"transcript": "caf'' @ [92] @ ascii ''u00e9 '' @ [92]
               @ ascii ''ud83d'' @ [92] @ ascii ''ude00"}'')]\<close>
    by (simp add: run_unicode)
  from transcript_message_shape[where t = "[99, 97, 102, 233, 32, 128512]",
      THEN conjunct2, THEN conjunct2, THEN conjunct2, THEN conjunct2, THEN conjunct2,
      THEN conjunct1, rule_format, OF w]
  have \<open>json_loads (ascii ''{"transcript": "caf'' @ [92] @ ascii ''u00e9 '' @ [92]
               @ ascii ''ud83d'' @ [92] @ ascii ''ude00"}'') =
       Some (JObject [(ascii ''transcript'', JString [99, 97, 102, 233, 32, 128512])])\<close>
    unfolding d .
  with k w s show ?thesis by (intro conjI)
qed

lemma for_loop_no_closed_line:
  "for_loop rg d ws = (r, ws', evs) \<Longrightarrow>
   Print (ascii ''Connection for voice transcription closed.'') \<notin> set evs"
proof (induction ws r ws' evs rule: for_loop_induct)
  case (Closed ws)
  show ?case by simp
next
  case (Raised ws c cs e ws1 evs)
  from loop_body_raises[OF Raised(2)] show ?case by (auto simp: ascii_def)
next
  case (Next ws c cs ws1 evs r ws2 evs')
  from Next(2) have "Print (ascii ''Connection for voice transcription closed.'') \<notin> set evs"
    by (auto simp: loop_body_cases ascii_def split: body_splits)
  with Next(4) show ?case by simp
qed

text \<open>
  Claim C10. The handler deals with \<open>UnknownValueError\<close>, \<open>RequestError\<close> and
  \<open>ConnectionClosed\<close> only. When the recognition of a chunk raises anything else, as it
  may on a text frame, the exception escapes the handler at once: the chunks that follow
  stay unread and the line of the clause for a closed connection is not printed. Whenever
  an exception escapes the handler, it is not \<open>ConnectionClosed\<close> and that line was not
  printed.
\<close>

theorem other_exception_escapes:
  "(inbox ws = c # cs \<and> rg (AudioData c 16000 2) = Inl e \<and> e \<noteq> UnknownValueError
      \<and> (\<forall>m. e \<noteq> RequestError m) \<and> e \<noteq> ConnectionClosed \<longrightarrow>
      transcribe_handler rg d ws =
        (Some e, ws\<lparr>inbox := cs\<rparr>,
         [Print (ascii ''Connection established for voice transcription.''), Recv c]))
 \<and> (transcribe_handler rg d ws = (Some e', ws', evs) \<longrightarrow>
      e' \<noteq> ConnectionClosed
    \<and> Print (ascii ''Connection for voice transcription closed.'') \<notin> set evs)"
proof (intro conjI impI)
  assume a: "inbox ws = c # cs \<and> rg (AudioData c 16000 2) = Inl e \<and> e \<noteq> UnknownValueError
      \<and> (\<forall>m. e \<noteq> RequestError m) \<and> e \<noteq> ConnectionClosed"
  then have "loop_body rg d c (ws\<lparr>inbox := cs\<rparr>) = (Some e, ws\<lparr>inbox := cs\<rparr>, [])"
    by (cases e) (simp_all add: loop_body_cases)
  with a have "for_loop rg d ws = (Some e, ws\<lparr>inbox := cs\<rparr>, [Recv c])"
    by (simp add: for_loop_Cons)
  with a show "transcribe_handler rg d ws =
        (Some e, ws\<lparr>inbox := cs\<rparr>,
         [Print (ascii ''Connection established for voice transcription.''), Recv c])"
    by (cases e) (simp_all add: transcribe_handler_def)
next
  assume a: "transcribe_handler rg d ws = (Some e', ws', evs)"
  from handler_events[OF a] obtain evs0 where
    l: "for_loop rg d ws = (Some e', ws', evs0)" and
    e: "evs = Print (ascii ''Connection established for voice transcription.'') # evs0"
      "e' \<noteq> ConnectionClosed"
    by auto
  from e show "e' \<noteq> ConnectionClosed" by simp
  from for_loop_no_closed_line[OF l] e
  show "Print (ascii ''Connection for voice transcription closed.'') \<notin> set evs"
    by (simp add: ascii_def)
qed

theorem other_exception_escapes_witness:
  \<open>sample_recognizer (AudioData (Text (ascii ''hello'')) 16000 2) = Inl (OtherError ''TypeError'')
   \<and> transcribe_handler sample_recognizer json_dumps
        (open_connection [Text (ascii ''hello''), Binary [1]]) =
      (Some (OtherError ''TypeError''), open_connection [Binary [1]],
       [Print (ascii ''Connection established for voice transcription.''), Recv (Text (ascii ''hello''))])
   \<and> Print (ascii ''Connection for voice transcription closed.'') \<notin>
       set [Print (ascii ''Connection established for voice transcription.''), Recv (Text (ascii ''hello''))]\<close>
proof -
  have k: "sample_recognizer (AudioData (Text (ascii ''hello'')) 16000 2) = Inl (OtherError ''TypeError'')"
    by (simp add: sample_recognizer_def AudioData_def)
  have o: "(open_connection [Text (ascii ''hello''), Binary [1]])\<lparr>inbox := [Binary [1]]\<rparr> =
      open_connection [Binary [1]]"
    "inbox (open_connection [Text (ascii ''hello''), Binary [1]]) = [Text (ascii ''hello''), Binary [1]]"
    by (simp_all add: open_connection_def)
  note t = other_exception_escapes[where rg = sample_recognizer and d = json_dumps
      and ws = "open_connection [Text (ascii ''hello''), Binary [1]]"]
  have 1: "transcribe_handler sample_recognizer json_dumps
        (open_connection [Text (ascii ''hello''), Binary [1]]) =
      (Some (OtherError ''TypeError''), open_connection [Binary [1]],
       [Print (ascii ''Connection established for voice transcription.''), Recv (Text (ascii ''hello''))])"
    using k o t[where c = "Text (ascii ''hello'')" and cs = "[Binary [1]]"
        and e = "OtherError ''TypeError''", THEN conjunct1]
    by simp
  have 2: "Print (ascii ''Connection for voice transcription closed.'') \<notin>
       set [Print (ascii ''Connection established for voice transcription.''), Recv (Text (ascii ''hello''))]"
    using 1 t[where e' = "OtherError ''TypeError''" and ws' = "open_connection [Binary [1]]"
        and evs = "[Print (ascii ''Connection established for voice transcription.''),
                    Recv (Text (ascii ''hello''))]", THEN conjunct2]
    by simp
  from k 1 2 show ?thesis by (intro conjI)
qed

subsection \<open>The termination signal\<close>

lemma never_resumes:
  "awaited p = Pending \<Longrightarrow> serving p \<Longrightarrow>
   awaited (run_process p steps) = Pending \<and> serving (run_process p steps)"
  by (induction p steps rule: run_process.induct)
     (simp_all add: on_sigterm_def set_result_def main_turn_def connect_def
        split: future.splits)

text \<open>
  Claim C4, on the code. SIGTERM sets the future \<open>stop\<close>, but \<^verbatim>\<open>main\<close> awaits another
  future, which nothing completes: after the signal and a turn of the event loop the
  listener is still serving and accepts a brand-new connection, and so it is after any
  run of signals, turns and connections. The sessions open when the signal arrives are
  untouched.
\<close>

theorem sigterm_leaves_listener_serving:
  "run_process (main_suspended\<lparr>sessions := [ws]\<rparr>) [Sigterm, Turn, Connect ws'] =
     \<lparr>stop = Done (), awaited = Pending, serving = True, sessions = [ws, ws']\<rparr>
 \<and> serving (run_process main_suspended steps)
 \<and> awaited (run_process main_suspended steps) = Pending"
  using never_resumes[of main_suspended steps]
  by (simp add: main_suspended_def on_sigterm_def set_result_def main_turn_def connect_def)

text \<open>
  Claim C6. SIGTERM on a process whose future \<open>stop\<close> is already done changes nothing
  in the state of the process: \<^verbatim>\<open>set_result\<close> raises \<open>InvalidStateError\<close> in the
  callback, which the event loop reports, and \<open>stop\<close> and the rest of the state are as
  before. So delivering the signal twice leaves the state that delivering it once leaves.
\<close>

theorem second_sigterm_changes_nothing:
  "(stop p = Done v \<longrightarrow> on_sigterm p = (Some InvalidStateError, p))
 \<and> snd (on_sigterm (snd (on_sigterm p))) = snd (on_sigterm p)
 \<and> run_process p [Sigterm, Sigterm] = run_process p [Sigterm]
 \<and> stop (snd (on_sigterm p)) = Done ()"
  by (cases "stop p") (simp_all add: on_sigterm_def set_result_def)

theorem second_sigterm_changes_nothing_witness:
  "stop (snd (on_sigterm main_suspended)) = Done ()
 \<and> on_sigterm (snd (on_sigterm main_suspended)) =
     (Some InvalidStateError, snd (on_sigterm main_suspended))
 \<and> snd (on_sigterm main_suspended) =
     \<lparr>stop = Done (), awaited = Pending, serving = True, sessions = []\<rparr>"
proof -
  have s: "stop (snd (on_sigterm main_suspended)) = Done ()"
    by (simp add: on_sigterm_def set_result_def main_suspended_def)
  from s second_sigterm_changes_nothing[of "snd (on_sigterm main_suspended)" "()", THEN conjunct1]
  have "on_sigterm (snd (on_sigterm main_suspended)) =
     (Some InvalidStateError, snd (on_sigterm main_suspended))"
    by simp
  with s show ?thesis
    by (simp add: on_sigterm_def set_result_def main_suspended_def)
qed

subsection \<open>Sessions sharing the event loop\<close>

text \<open>The turns of a session run alone are the handler: same events, same final state.\<close>

lemma turns_alone_ended: "ended t \<Longrightarrow> turns_alone rg d tm n t = Some t"
  by (induction n) (simp_all add: task_turn_def)

lemma task_turn_Nil:
  "inbox ws = [] \<Longrightarrow>
   task_turn rg d tm \<lparr>conn = ws, log = L, ended = False\<rparr> =
     Some (0, None, \<lparr>conn = ws, log = L @ (case closure ws of None \<Rightarrow> [] | Some e \<Rightarrow> closing e),
                     ended = True\<rparr>)"
  by (simp add: task_turn_def anext_def split: option.splits)

lemma task_turn_Cons:
  "inbox ws = c # cs \<Longrightarrow> tm (AudioData c 16000 2) = Some dt \<Longrightarrow>
   task_turn rg d tm \<lparr>conn = ws, log = L, ended = False\<rparr> =
     (case loop_body rg d c (ws\<lparr>inbox := cs\<rparr>) of
        (None, ws1, evs) \<Rightarrow>
          Some (dt, Some c, \<lparr>conn = ws1, log = L @ Recv c # evs, ended = False\<rparr>)
      | (Some e, ws1, evs) \<Rightarrow>
          Some (dt, Some c, \<lparr>conn = ws1, log = L @ Recv c # evs @ closing e, ended = True\<rparr>))"
  by (cases "loop_body rg d c (ws\<lparr>inbox := cs\<rparr>)")
     (auto simp: task_turn_def anext_def split: option.splits)

lemma turns_alone_for_loop:
  assumes "for_loop rg d ws = (r, ws', evs)" and "\<forall>a. tm a \<noteq> None"
  shows "turns_alone rg d tm (Suc (length (inbox ws))) \<lparr>conn = ws, log = L, ended = False\<rparr> =
     Some \<lparr>conn = ws', log = L @ evs @ (case r of None \<Rightarrow> [] | Some e \<Rightarrow> closing e),
           ended = True\<rparr>"
  using assms(1)
proof (induction ws r ws' evs arbitrary: L rule: for_loop_induct)
  case (Closed ws)
  then show ?case by (simp add: task_turn_Nil)
next
  case (Raised ws c cs e ws1 evs)
  obtain dt where dt: "tm (AudioData c 16000 2) = Some dt" using assms(2) by fastforce
  have "task_turn rg d tm \<lparr>conn = ws, log = L, ended = False\<rparr> =
      Some (dt, Some c, \<lparr>conn = ws1, log = L @ Recv c # evs @ closing e, ended = True\<rparr>)"
    using task_turn_Cons[where ws = ws and c = c and cs = cs and tm = tm and dt = dt
        and rg = rg and d = d and L = L] Raised(1,2) dt by simp
  then have "turns_alone rg d tm (Suc (length (inbox ws))) \<lparr>conn = ws, log = L, ended = False\<rparr> =
      turns_alone rg d tm (length (inbox ws))
        \<lparr>conn = ws1, log = L @ Recv c # evs @ closing e, ended = True\<rparr>"
    by (subst turns_alone.simps(2)) (simp del: turns_alone.simps)
  then show ?case by (simp add: turns_alone_ended del: turns_alone.simps)
next
  case (Next ws c cs ws1 evs r ws2 evs')
  obtain dt where dt: "tm (AudioData c 16000 2) = Some dt" using assms(2) by fastforce
  have i: "inbox ws1 = cs" using loop_body_inbox[OF Next(2)] by simp
  have "task_turn rg d tm \<lparr>conn = ws, log = L, ended = False\<rparr> =
      Some (dt, Some c, \<lparr>conn = ws1, log = L @ Recv c # evs, ended = False\<rparr>)"
    using task_turn_Cons[where ws = ws and c = c and cs = cs and tm = tm and dt = dt
        and rg = rg and d = d and L = L] Next(1,2) dt by simp
  then have "turns_alone rg d tm (Suc (length (inbox ws))) \<lparr>conn = ws, log = L, ended = False\<rparr> =
      turns_alone rg d tm (length (inbox ws)) \<lparr>conn = ws1, log = L @ Recv c # evs, ended = False\<rparr>"
    by (subst turns_alone.simps(2)) (simp del: turns_alone.simps)
  then show ?case using Next(4)[of "L @ Recv c # evs"] Next(1) i
    by (simp del: turns_alone.simps)
qed

lemma task_alone_is_handler:
  assumes "transcribe_handler rg d ws = (r, ws', evs)" and "\<forall>a. tm a \<noteq> None"
  shows "turns_alone rg d tm (Suc (length (inbox ws))) (new_task ws) =
     Some \<lparr>conn = ws', log = evs, ended = True\<rparr>"
proof -
  obtain r0 evs0 where l: "for_loop rg d ws = (r0, ws', evs0)"
    and e: "evs = Print (ascii ''Connection established for voice transcription.'') # evs0
        @ (case r0 of None \<Rightarrow> [] | Some e \<Rightarrow> closing e)"
    using assms(1) 
    by (cases "for_loop rg d ws")
       (auto simp: transcribe_handler_def closing_def split: option.splits exn.splits)
  from turns_alone_for_loop[OF l assms(2)] e show ?thesis
    by (simp add: new_task_def)
qed

text \<open>
  Claim C9, on the code. The sessions are not independent: the call of line 17 is not
  awaited, so while the recognition of a chunk of one session runs, no other session runs.
  With two sessions open and the message of the first arriving first, a recognition that
  never returns in the first session leaves the chunk of the second unprocessed for ever,
  and a recognition that takes \<open>n\<close> ticks delays the chunk of the second by \<open>n\<close>
  ticks: it is done at \<open>n + 1\<close>, where alone it is done at \<open>1\<close>.
\<close>

theorem stalled_recognition_blocks_other_session:
  "run_loop sample_recognizer json_dumps
     (\<lambda>audio. if frame_data audio = Binary [1] then None else Some 1) two_sessions [0, 1] = None
 \<and> map_option processed (run_loop sample_recognizer json_dumps
     (\<lambda>audio. if frame_data audio = Binary [1] then Some n else Some 1) two_sessions [0, 1]) =
     Some [(0, Binary [1], n), (1, Binary [2], n + 1)]
 \<and> map_option processed (run_loop sample_recognizer json_dumps
     (\<lambda>audio. if frame_data audio = Binary [1] then None else Some 1) two_sessions [1]) =
     Some [(1, Binary [2], 1)]"
  by (simp add: two_sessions_def new_task_def task_turn_def anext_def open_connection_def
      loop_body_cases AudioData_def sample_recognizer_def)

end
